theory Spec2Isabelle
  imports Main
begin

section \<open>Data model\<close>

text \<open>
  The web-hook server \<^verbatim>\<open>src/server.js\<close> (the version with the
  processed-order set, the cancellation and the fulfilment handler). An order identifier
  arrives as a JSON number or a JSON string; the server compares identifiers by
  \<^verbatim>\<open>order.id.toString()\<close>. Numeric identifiers are integers of
  magnitude below \<open>10^21\<close>, which JavaScript renders in plain decimal; from
  there on JavaScript writes an exponent, and such identifiers are outside this model.
  The theorems below hold for any rendering: none unfolds \<open>toString\<close>
  except at the identifiers of the examples.
\<close>

datatype json_id = IdNumber int | IdString string

fun decimal :: "nat \<Rightarrow> string" where
  "decimal n =
     (if n < 10 then [''0123456789'' ! n]
      else decimal (n div 10) @ [''0123456789'' ! (n mod 10)])"

definition toString :: "json_id \<Rightarrow> string" where
  "toString i =
     (case i of
        IdNumber n \<Rightarrow> (if n < 0 then CHR ''-'' # decimal (nat (- n)) else decimal (nat n))
      | IdString s \<Rightarrow> s)"

text \<open>
  JavaScript's \<^verbatim>\<open>!x\<close> on a property that may be absent:
  \<^verbatim>\<open>undefined\<close>, the number \<open>0\<close> and the empty string
  are falsy.
\<close>

definition falsy :: "json_id option \<Rightarrow> bool" where
  "falsy x =
     (case x of
        None \<Rightarrow> True
      | Some (IdNumber n) \<Rightarrow> n = 0
      | Some (IdString s) \<Rightarrow> s = [])"

record line_item =
  variant_id :: int
  quantity :: int

text \<open>
  The body of a web-hook request, as far as the handlers read it:
  \<^verbatim>\<open>order.id\<close> and \<^verbatim>\<open>order.line_items\<close>.
  Either property may be absent (\<open>None\<close>); dereferencing an absent property
  raises a \<^verbatim>\<open>TypeError\<close> in the source.
\<close>

record order =
  order_id :: "json_id option"
  line_items :: "line_item list option"

text \<open>The body of \<^verbatim>\<open>POST /test/process-order\<close>: \<^verbatim>\<open>{orderId, lineItems}\<close>.\<close>

record test_order =
  orderId :: "json_id option"
  lineItems :: "line_item list option"

section \<open>The commerce platform\<close>

text \<open>
  The three admin API calls the server makes: the variant lookup
  (\<^verbatim>\<open>GET /variants/<id>.json\<close>), the inventory-level lookup
  (\<^verbatim>\<open>GET /inventory_levels.json?inventory_item_ids=<id>\<close>) and the
  adjustment (\<^verbatim>\<open>POST /inventory_levels/adjust.json\<close> with location,
  inventory item and delta).
\<close>

datatype api_call =
    GetVariant int
  | GetInventoryLevels int
  | PostAdjust int int int

record inventory_level =
  location_id :: int
  available :: int

datatype api_response =
    VariantResponse int
  | InventoryLevelsResponse "inventory_level list"
  | AdjustResponse

text \<open>
  What \<^verbatim>\<open>axios\<close> gives back: a response, an error response of the
  platform (status and data), or no response at all (a transport error with its message).
\<close>

datatype api_outcome =
    Responded api_response
  | ErrorResponse nat string
  | NoResponse string

text \<open>
  The platform is outside the program. It is a parameter: any function from the calls made
  so far and the present call to an outcome. Every call extends the history, so every
  sequence of outcomes is the behaviour of some platform.
\<close>

type_synonym platform = "api_call list \<Rightarrow> api_call \<Rightarrow> api_outcome"

datatype js_error =
    ShopifyAPIError nat string
  | TransportError string
  | TypeError
  | NoInventoryLevels int
  | InventoryUpdateFailed js_error

section \<open>Server state\<close>

text \<open>One constructor for each \<^verbatim>\<open>console.log\<close> and \<^verbatim>\<open>console.error\<close> of the source.\<close>

datatype log_line =
    LogUnauthorized
  | LogVerified
  | LogProcessingOrder "json_id option" nat
  | LogUpdated int int
  | LogUpdateFailed int js_error
  | LogCurrentInventory int int
  | LogAdjusted int int
  | LogNewOrder "json_id option"
  | LogOrderNumber
  | LogOrderProcessed "json_id option"
  | LogErrorProcessingOrder js_error
  | LogOrderCancelled "json_id option"
  | LogNotProcessed json_id
  | LogRestored int int
  | LogRestoreFailed int js_error
  | LogCancellationProcessed json_id
  | LogErrorCancellation js_error
  | LogOrderFulfilled "json_id option"
  | LogCompensated int int
  | LogCompensateFailed int js_error
  | LogFulfillmentCompleted json_id
  | LogErrorFulfillment js_error
  | LogTesting json_id
  | LogTestUpdated int int
  | LogTestFailed js_error

text \<open>
  The process-wide state: the set \<^verbatim>\<open>processedOrders\<close>, and the two
  effects the handlers have on the outside, the calls sent to the platform and the
  console, both in the order they happen.
\<close>

record server =
  processedOrders :: "string set"
  requests :: "api_call list"
  console :: "log_line list"

definition init :: server where
  "init = \<lparr>processedOrders = {}, requests = [], console = []\<rparr>"

definition log :: "log_line \<Rightarrow> server \<Rightarrow> server" where
  "log l s = s\<lparr>console := console s @ [l]\<rparr>"

datatype payload =
    Plain string
  | RequiredJson
  | SuccessJson json_id
  | ErrorJson js_error

record http_response =
  status :: nat
  payload :: payload

definition ok_response :: http_response where
  "ok_response = \<lparr>status = 200, payload = Plain ''OK''\<rparr>"

definition internal_error :: http_response where
  "internal_error = \<lparr>status = 500, payload = Plain ''Internal Server Error''\<rparr>"

section \<open>The inventory API client\<close>

text \<open>
  \<^verbatim>\<open>shopifyAPI\<close>: sends the call, and returns the response or
  throws. An error response is rethrown as
  \<^verbatim>\<open>Shopify API Error: <status> - <data>\<close>, any other error as it
  is.
\<close>

definition shopifyAPI :: "platform \<Rightarrow> api_call \<Rightarrow> server \<Rightarrow> (js_error + api_response) \<times> server" where
  "shopifyAPI env call s =
     (let s' = s\<lparr>requests := requests s @ [call]\<rparr> in
      case env (requests s) call of
        Responded r \<Rightarrow> (Inr r, s')
      | ErrorResponse st d \<Rightarrow> (Inl (ShopifyAPIError st d), s')
      | NoResponse m \<Rightarrow> (Inl (TransportError m), s'))"

text \<open>
  \<^verbatim>\<open>updateInventoryForVariant(variantId, adjustment)\<close>. Everything
  thrown inside is caught and rethrown as
  \<^verbatim>\<open>Inventory update failed: ...\<close>. A response of another shape
  than the one read (\<^verbatim>\<open>data.variant.inventory_item_id\<close>,
  \<^verbatim>\<open>data.inventory_levels.length\<close>) is a
  \<^verbatim>\<open>TypeError\<close> there; the response to the adjustment is not read.
\<close>

definition updateInventoryForVariant ::
  "platform \<Rightarrow> int \<Rightarrow> int \<Rightarrow> server \<Rightarrow> (js_error + unit) \<times> server" where
  "updateInventoryForVariant env variantId adjustment s =
     (case shopifyAPI env (GetVariant variantId) s of
        (Inl e, s1) \<Rightarrow> (Inl (InventoryUpdateFailed e), s1)
      | (Inr (VariantResponse inventoryItemId), s1) \<Rightarrow>
          (case shopifyAPI env (GetInventoryLevels inventoryItemId) s1 of
             (Inl e, s2) \<Rightarrow> (Inl (InventoryUpdateFailed e), s2)
           | (Inr (InventoryLevelsResponse []), s2) \<Rightarrow>
               (Inl (InventoryUpdateFailed (NoInventoryLevels variantId)), s2)
           | (Inr (InventoryLevelsResponse (inventoryLevel # _)), s2) \<Rightarrow>
               (let s3 = log (LogCurrentInventory variantId (available inventoryLevel)) s2 in
                case shopifyAPI env
                       (PostAdjust (location_id inventoryLevel) inventoryItemId adjustment) s3 of
                  (Inl e, s4) \<Rightarrow> (Inl (InventoryUpdateFailed e), s4)
                | (Inr _, s4) \<Rightarrow> (Inr (), log (LogAdjusted adjustment variantId) s4))
           | (Inr _, s2) \<Rightarrow> (Inl (InventoryUpdateFailed TypeError), s2))
      | (Inr _, s1) \<Rightarrow> (Inl (InventoryUpdateFailed TypeError), s1))"

section \<open>Order processing\<close>

text \<open>
  The loop of \<^verbatim>\<open>updateInventoryForOrder\<close>: one
  \<^verbatim>\<open>try\<close>/\<^verbatim>\<open>catch\<close> around each line item's
  deduction; the \<^verbatim>\<open>catch\<close> logs and goes on.
\<close>

fun deduct_items :: "platform \<Rightarrow> line_item list \<Rightarrow> server \<Rightarrow> server" where
  "deduct_items env [] s = s"
| "deduct_items env (lineItem # rest) s =
     (case updateInventoryForVariant env (variant_id lineItem) (- quantity lineItem) s of
        (Inr _, s') \<Rightarrow>
          deduct_items env rest (log (LogUpdated (variant_id lineItem) (quantity lineItem)) s')
      | (Inl e, s') \<Rightarrow>
          deduct_items env rest (log (LogUpdateFailed (variant_id lineItem) e) s'))"

text \<open>
  \<^verbatim>\<open>updateInventoryForOrder(order)\<close>. The first log line reads
  \<^verbatim>\<open>order.line_items.length\<close>, then the order is added to
  \<^verbatim>\<open>processedOrders\<close>
  (\<^verbatim>\<open>order.id.toString()\<close>), then the loop runs.
\<close>

definition updateInventoryForOrder ::
  "platform \<Rightarrow> order \<Rightarrow> server \<Rightarrow> (js_error + unit) \<times> server" where
  "updateInventoryForOrder env order s =
     (case line_items order of
        None \<Rightarrow> (Inl TypeError, s)
      | Some items \<Rightarrow>
          (let s1 = log (LogProcessingOrder (order_id order) (length items)) s in
           case order_id order of
             None \<Rightarrow> (Inl TypeError, s1)
           | Some i \<Rightarrow>
               (let s2 = s1\<lparr>processedOrders := insert (toString i) (processedOrders s1)\<rparr>
                in (Inr (), deduct_items env items s2))))"

text \<open>The handler of \<^verbatim>\<open>POST /webhooks/order-created\<close>.\<close>

definition order_created :: "platform \<Rightarrow> order \<Rightarrow> server \<Rightarrow> http_response \<times> server" where
  "order_created env order s =
     (let s0 = log LogOrderNumber (log (LogNewOrder (order_id order)) s) in
      case updateInventoryForOrder env order s0 of
        (Inr _, s1) \<Rightarrow> (ok_response, log (LogOrderProcessed (order_id order)) s1)
      | (Inl e, s1) \<Rightarrow> (internal_error, log (LogErrorProcessingOrder e) s1))"

text \<open>The loop of the cancellation handler: each line item's quantity is added back.\<close>

fun restore_items :: "platform \<Rightarrow> line_item list \<Rightarrow> server \<Rightarrow> server" where
  "restore_items env [] s = s"
| "restore_items env (lineItem # rest) s =
     (case updateInventoryForVariant env (variant_id lineItem) (quantity lineItem) s of
        (Inr _, s') \<Rightarrow>
          restore_items env rest (log (LogRestored (variant_id lineItem) (quantity lineItem)) s')
      | (Inl e, s') \<Rightarrow>
          restore_items env rest (log (LogRestoreFailed (variant_id lineItem) e) s'))"

text \<open>
  The handler of \<^verbatim>\<open>POST /webhooks/order-cancelled\<close>. An order that
  is not in \<^verbatim>\<open>processedOrders\<close> is skipped with 200; otherwise the
  loop runs and the order is deleted from the set. A \<^verbatim>\<open>TypeError\<close>
  (no \<^verbatim>\<open>id\<close>, or \<^verbatim>\<open>line_items\<close> that cannot
  be iterated) ends in the outer \<^verbatim>\<open>catch\<close> with 500.
\<close>

definition order_cancelled :: "platform \<Rightarrow> order \<Rightarrow> server \<Rightarrow> http_response \<times> server" where
  "order_cancelled env order s =
     (let s0 = log (LogOrderCancelled (order_id order)) s in
      case order_id order of
        None \<Rightarrow> (internal_error, log (LogErrorCancellation TypeError) s0)
      | Some i \<Rightarrow>
          if toString i \<notin> processedOrders s0 then (ok_response, log (LogNotProcessed i) s0)
          else
            (case line_items order of
               None \<Rightarrow> (internal_error, log (LogErrorCancellation TypeError) s0)
             | Some items \<Rightarrow>
                 (let s1 = restore_items env items s0;
                      s2 = s1\<lparr>processedOrders := processedOrders s1 - {toString i}\<rparr>
                  in (ok_response, log (LogCancellationProcessed i) s2))))"

text \<open>The loop of the fulfilment handler: each line item's quantity is added back.\<close>

fun compensate_items :: "platform \<Rightarrow> line_item list \<Rightarrow> server \<Rightarrow> server" where
  "compensate_items env [] s = s"
| "compensate_items env (lineItem # rest) s =
     (case updateInventoryForVariant env (variant_id lineItem) (quantity lineItem) s of
        (Inr _, s') \<Rightarrow>
          compensate_items env rest
            (log (LogCompensated (variant_id lineItem) (quantity lineItem)) s')
      | (Inl e, s') \<Rightarrow>
          compensate_items env rest (log (LogCompensateFailed (variant_id lineItem) e) s'))"

text \<open>The handler of \<^verbatim>\<open>POST /webhooks/order-fulfilled\<close>.\<close>

definition order_fulfilled :: "platform \<Rightarrow> order \<Rightarrow> server \<Rightarrow> http_response \<times> server" where
  "order_fulfilled env order s =
     (let s0 = log (LogOrderFulfilled (order_id order)) s in
      case order_id order of
        None \<Rightarrow> (internal_error, log (LogErrorFulfillment TypeError) s0)
      | Some i \<Rightarrow>
          if toString i \<notin> processedOrders s0 then (ok_response, log (LogNotProcessed i) s0)
          else
            (case line_items order of
               None \<Rightarrow> (internal_error, log (LogErrorFulfillment TypeError) s0)
             | Some items \<Rightarrow>
                 (let s1 = compensate_items env items s0;
                      s2 = s1\<lparr>processedOrders := processedOrders s1 - {toString i}\<rparr>
                  in (ok_response, log (LogFulfillmentCompleted i) s2))))"

section \<open>The test endpoint\<close>

text \<open>
  The loop of \<^verbatim>\<open>POST /test/process-order\<close> has no
  \<^verbatim>\<open>try\<close>/\<^verbatim>\<open>catch\<close> of its own: the first
  deduction that throws ends it.
\<close>

fun test_items :: "platform \<Rightarrow> line_item list \<Rightarrow> server \<Rightarrow> (js_error + unit) \<times> server" where
  "test_items env [] s = (Inr (), s)"
| "test_items env (lineItem # rest) s =
     (case updateInventoryForVariant env (variant_id lineItem) (- quantity lineItem) s of
        (Inl e, s') \<Rightarrow> (Inl e, s')
      | (Inr _, s') \<Rightarrow>
          test_items env rest
            (log (LogTestUpdated (variant_id lineItem) (quantity lineItem)) s'))"

text \<open>
  The handler of \<^verbatim>\<open>POST /test/process-order\<close>. Its guard is
  \<^verbatim>\<open>!orderId || !lineItems\<close>: 400 unless both properties are there
  and \<^verbatim>\<open>orderId\<close> is truthy (a list of line items always is). The
  order is never added to \<^verbatim>\<open>processedOrders\<close>.
\<close>

definition test_process_order ::
  "platform \<Rightarrow> test_order \<Rightarrow> server \<Rightarrow> http_response \<times> server" where
  "test_process_order env body s =
     (case (orderId body, lineItems body) of
        (Some i, Some items) \<Rightarrow>
          if falsy (Some i) then (\<lparr>status = 400, payload = RequiredJson\<rparr>, s)
          else
            (case test_items env items (log (LogTesting i) s) of
               (Inr _, s1) \<Rightarrow> (\<lparr>status = 200, payload = SuccessJson i\<rparr>, s1)
             | (Inl e, s1) \<Rightarrow> (\<lparr>status = 500, payload = ErrorJson e\<rparr>, log (LogTestFailed e) s1))
      | _ \<Rightarrow> (\<lparr>status = 400, payload = RequiredJson\<rparr>, s))"

section \<open>Signature verification and the routes\<close>

text \<open>
  A web-hook request: the \<^verbatim>\<open>X-Shopify-Hmac-Sha256\<close> header if there
  is one, the bytes of the body as they were received, and
  \<^verbatim>\<open>req.body\<close>, the body as
  \<^verbatim>\<open>express.json()\<close> parsed it. The handlers and the middleware
  read the header and \<^verbatim>\<open>req.body\<close> only.
\<close>

record webhook_request =
  hmac_header :: "string option"
  raw_body :: string
  body :: order

text \<open>
  \<^verbatim>\<open>verifyWebhook\<close>. The library functions are parameters:
  \<open>hmac key message\<close> is
  \<^verbatim>\<open>crypto.createHmac('sha256', key).update(message, 'utf8').digest('base64')\<close>
  and \<open>stringify\<close> is \<^verbatim>\<open>JSON.stringify\<close>. The result is
  the response sent, or \<open>None\<close> when \<^verbatim>\<open>next()\<close> is
  called. The secret is the configured \<^verbatim>\<open>SHOPIFY_WEBHOOK_SECRET\<close>.
\<close>

definition verifyWebhook ::
  "(string \<Rightarrow> string \<Rightarrow> string) \<Rightarrow> (order \<Rightarrow> string) \<Rightarrow> string \<Rightarrow> webhook_request \<Rightarrow> server
     \<Rightarrow> http_response option \<times> server" where
  "verifyWebhook hmac stringify secret req s =
     (let hash = hmac secret (stringify (body req)) in
      if Some hash \<noteq> hmac_header req
      then (Some \<lparr>status = 401, payload = Plain ''Unauthorized''\<rparr>, log LogUnauthorized s)
      else (None, log LogVerified s))"

datatype webhook = OrderCreated | OrderCancelled | OrderFulfilled

fun handler :: "webhook \<Rightarrow> platform \<Rightarrow> order \<Rightarrow> server \<Rightarrow> http_response \<times> server" where
  "handler OrderCreated = order_created"
| "handler OrderCancelled = order_cancelled"
| "handler OrderFulfilled = order_fulfilled"

text \<open>\<^verbatim>\<open>app.post('/webhooks/...', verifyWebhook, handler)\<close>.\<close>

definition post_webhook ::
  "(string \<Rightarrow> string \<Rightarrow> string) \<Rightarrow> (order \<Rightarrow> string) \<Rightarrow> string \<Rightarrow> platform \<Rightarrow> webhook
     \<Rightarrow> webhook_request \<Rightarrow> server \<Rightarrow> http_response \<times> server" where
  "post_webhook hmac stringify secret env hook req s =
     (case verifyWebhook hmac stringify secret req s of
        (Some response, s') \<Rightarrow> (response, s')
      | (None, s') \<Rightarrow> handler hook env (body req) s')"

text \<open>A run of the server: verified deliveries, handled one after the other.\<close>

fun deliver :: "platform \<Rightarrow> webhook \<times> order \<Rightarrow> server \<Rightarrow> server" where
  "deliver env (hook, order) s = snd (handler hook env order s)"

definition run :: "platform \<Rightarrow> (webhook \<times> order) list \<Rightarrow> server \<Rightarrow> server" where
  "run env deliveries s = fold (deliver env) deliveries s"

section \<open>What is observed of a run\<close>

text \<open>The variants looked up: every call of \<^verbatim>\<open>updateInventoryForVariant\<close> starts with one.\<close>

fun lookup_of :: "api_call \<Rightarrow> int option" where
  "lookup_of (GetVariant v) = Some v"
| "lookup_of _ = None"

definition lookups :: "api_call list \<Rightarrow> int list" where
  "lookups calls = List.map_filter lookup_of calls"

text \<open>The mutating calls: the adjustments sent, each with location, inventory item and delta.\<close>

fun mutation_of :: "api_call \<Rightarrow> (int \<times> int \<times> int) option" where
  "mutation_of (PostAdjust l i d) = Some (l, i, d)"
| "mutation_of _ = None"

definition mutations :: "api_call list \<Rightarrow> (int \<times> int \<times> int) list" where
  "mutations calls = List.map_filter mutation_of calls"

text \<open>
  The adjustments applied:
  \<^verbatim>\<open>Inventory adjusted by <adjustment> for variant <variantId>\<close> is
  logged when, and only when, the platform has answered the adjustment call with success.
  Each is a pair of the variant and the delta.
\<close>

fun adjustment_of :: "log_line \<Rightarrow> (int \<times> int) option" where
  "adjustment_of (LogAdjusted d v) = Some (v, d)"
| "adjustment_of _ = None"

definition adjusted :: "log_line list \<Rightarrow> (int \<times> int) list" where
  "adjusted ls = List.map_filter adjustment_of ls"

definition net_adjusted :: "int \<Rightarrow> log_line list \<Rightarrow> int" where
  "net_adjusted v ls = sum_list (map snd (filter (\<lambda>a. fst a = v) (adjusted ls)))"

text \<open>The line items whose adjustment failed: the lines the three \<^verbatim>\<open>catch\<close> blocks log.\<close>

fun is_failure :: "log_line \<Rightarrow> bool" where
  "is_failure (LogUpdateFailed v e) = True"
| "is_failure (LogRestoreFailed v e) = True"
| "is_failure (LogCompensateFailed v e) = True"
| "is_failure _ = False"

definition failures :: "log_line list \<Rightarrow> nat" where
  "failures ls = length (filter is_failure ls)"

text \<open>The deduction and the restoration a line item asks for.\<close>

definition deduction :: "line_item \<Rightarrow> int \<times> int" where
  "deduction lineItem = (variant_id lineItem, - quantity lineItem)"

definition restoration :: "line_item \<Rightarrow> int \<times> int" where
  "restoration lineItem = (variant_id lineItem, quantity lineItem)"

text \<open>
  The life cycle of an identifier over the deliveries handled so far: awaiting its
  terminal event when the last delivery that names it was an
  \<^verbatim>\<open>order-created\<close>.
\<close>

fun awaiting :: "bool \<Rightarrow> string \<Rightarrow> (webhook \<times> order) list \<Rightarrow> bool" where
  "awaiting b k [] = b"
| "awaiting b k ((hook, order) # rest) =
     awaiting (if map_option toString (order_id order) = Some k then hook = OrderCreated else b) k rest"

definition well_formed :: "order \<Rightarrow> bool" where
  "well_formed order = (order_id order \<noteq> None \<and> line_items order \<noteq> None)"

section \<open>What the answers of the platform ask for\<close>

text \<open>
  One adjustment as the specification words it, with no server state: a function of the
  platform, of the calls made before, and of the variant and the delta. The variant is
  looked up; when an inventory item comes back, its inventory levels are looked up; when
  there is a first level, the adjustment is sent to its location with the inventory item
  and the delta; the adjustment has succeeded when that call is answered. The result is
  the outcome and the calls sent, in order.
\<close>

definition expected_adjustment ::
  "platform \<Rightarrow> api_call list \<Rightarrow> int \<times> int \<Rightarrow> (js_error + unit) \<times> api_call list" where
  "expected_adjustment env history a =
     (let v = fst a; d = snd a; lookup = GetVariant v in
      case env history lookup of
        ErrorResponse st t \<Rightarrow> (Inl (InventoryUpdateFailed (ShopifyAPIError st t)), [lookup])
      | NoResponse m \<Rightarrow> (Inl (InventoryUpdateFailed (TransportError m)), [lookup])
      | Responded (VariantResponse item) \<Rightarrow>
          (let levels = GetInventoryLevels item in
           case env (history @ [lookup]) levels of
             ErrorResponse st t \<Rightarrow>
               (Inl (InventoryUpdateFailed (ShopifyAPIError st t)), [lookup, levels])
           | NoResponse m \<Rightarrow> (Inl (InventoryUpdateFailed (TransportError m)), [lookup, levels])
           | Responded (InventoryLevelsResponse []) \<Rightarrow>
               (Inl (InventoryUpdateFailed (NoInventoryLevels v)), [lookup, levels])
           | Responded (InventoryLevelsResponse (level # _)) \<Rightarrow>
               (let adjust = PostAdjust (location_id level) item d in
                case env (history @ [lookup, levels]) adjust of
                  Responded _ \<Rightarrow> (Inr (), [lookup, levels, adjust])
                | ErrorResponse st t \<Rightarrow>
                    (Inl (InventoryUpdateFailed (ShopifyAPIError st t)), [lookup, levels, adjust])
                | NoResponse m \<Rightarrow>
                    (Inl (InventoryUpdateFailed (TransportError m)), [lookup, levels, adjust]))
           | Responded _ \<Rightarrow> (Inl (InventoryUpdateFailed TypeError), [lookup, levels]))
      | Responded _ \<Rightarrow> (Inl (InventoryUpdateFailed TypeError), [lookup]))"

text \<open>
  The web-hook handlers attempt every adjustment of a list, each on its own: the calls of
  an adjustment depend on the answers to its own calls, never on the outcome of the
  adjustments before it. These are the calls sent for the whole list, and the
  adjustments of the list that succeed.
\<close>

fun attempted_calls :: "platform \<Rightarrow> api_call list \<Rightarrow> (int \<times> int) list \<Rightarrow> api_call list" where
  "attempted_calls env history [] = []"
| "attempted_calls env history (a # rest) =
     (let calls = snd (expected_adjustment env history a)
      in calls @ attempted_calls env (history @ calls) rest)"

fun attempted_applied :: "platform \<Rightarrow> api_call list \<Rightarrow> (int \<times> int) list \<Rightarrow> (int \<times> int) list" where
  "attempted_applied env history [] = []"
| "attempted_applied env history (a # rest) =
     (case expected_adjustment env history a of
        (Inr _, calls) \<Rightarrow> a # attempted_applied env (history @ calls) rest
      | (Inl e, calls) \<Rightarrow> attempted_applied env (history @ calls) rest)"

text \<open>
  The test endpoint stops at the first adjustment that fails: the error of that
  adjustment if there is one, the calls sent up to and with it, and the adjustments that
  succeeded before it.
\<close>

fun first_failure :: "platform \<Rightarrow> api_call list \<Rightarrow> (int \<times> int) list \<Rightarrow> js_error option" where
  "first_failure env history [] = None"
| "first_failure env history (a # rest) =
     (case expected_adjustment env history a of
        (Inl e, calls) \<Rightarrow> Some e
      | (Inr _, calls) \<Rightarrow> first_failure env (history @ calls) rest)"

fun calls_until_failure :: "platform \<Rightarrow> api_call list \<Rightarrow> (int \<times> int) list \<Rightarrow> api_call list" where
  "calls_until_failure env history [] = []"
| "calls_until_failure env history (a # rest) =
     (case expected_adjustment env history a of
        (Inl e, calls) \<Rightarrow> calls
      | (Inr _, calls) \<Rightarrow> calls @ calls_until_failure env (history @ calls) rest)"

fun applied_until_failure :: "platform \<Rightarrow> api_call list \<Rightarrow> (int \<times> int) list \<Rightarrow> (int \<times> int) list" where
  "applied_until_failure env history [] = []"
| "applied_until_failure env history (a # rest) =
     (case expected_adjustment env history a of
        (Inl e, calls) \<Rightarrow> []
      | (Inr _, calls) \<Rightarrow> a # applied_until_failure env (history @ calls) rest)"

section \<open>Platforms and requests of the examples\<close>

text \<open>
  A platform on which every call succeeds (variant \<open>v\<close> has inventory item
  \<open>v + 1000\<close>, stocked at the locations 7 and 8), one that answers nothing,
  and one that fails the first \<open>n\<close> calls and succeeds from then on.
\<close>

fun platform_up :: platform where
  "platform_up history (GetVariant v) = Responded (VariantResponse (v + 1000))"
| "platform_up history (GetInventoryLevels i) =
     Responded (InventoryLevelsResponse
       [\<lparr>location_id = 7, available = 40\<rparr>, \<lparr>location_id = 8, available = 3\<rparr>])"
| "platform_up history (PostAdjust l i d) = Responded AdjustResponse"

definition platform_down :: platform where
  "platform_down history call = NoResponse ''ECONNREFUSED''"

definition platform_flaky :: "nat \<Rightarrow> platform" where
  "platform_flaky n history call =
     (if length history < n then ErrorResponse 503 ''unavailable'' else platform_up history call)"

text \<open>A platform on which variant 55 has an inventory item with no inventory level.\<close>

fun platform_unstocked :: platform where
  "platform_unstocked history (GetVariant v) = Responded (VariantResponse (v + 1000))"
| "platform_unstocked history (GetInventoryLevels i) = Responded (InventoryLevelsResponse [])"
| "platform_unstocked history (PostAdjust l i d) = Responded AdjustResponse"

text \<open>A platform that answers the two look-ups and refuses every adjustment.\<close>

fun platform_readonly :: platform where
  "platform_readonly history (GetVariant v) = Responded (VariantResponse (v + 1000))"
| "platform_readonly history (GetInventoryLevels i) =
     Responded (InventoryLevelsResponse [\<lparr>location_id = 7, available = 40\<rparr>])"
| "platform_readonly history (PostAdjust l i d) = ErrorResponse 422 ''refused''"

text \<open>Order 1001 with two units of variant 55, and order 1002 with two line items.\<close>

definition order_1001 :: order where
  "order_1001 =
     \<lparr>order_id = Some (IdNumber 1001),
      line_items = Some [\<lparr>variant_id = 55, quantity = 2\<rparr>]\<rparr>"

definition order_1002 :: order where
  "order_1002 =
     \<lparr>order_id = Some (IdString ''1002''),
      line_items = Some [\<lparr>variant_id = 55, quantity = 1\<rparr>, \<lparr>variant_id = 56, quantity = 3\<rparr>]\<rparr>"

text \<open>
  Stand-ins for the two library functions in the examples of the signature check. The
  keyed hash is replaced by a function that keeps key and message whole, so that two
  different messages never share a tag (HMAC-SHA256 separates them but for a collision).
  \<open>compact_json\<close> writes an order as \<^verbatim>\<open>JSON.stringify\<close>
  writes an object with the properties \<^verbatim>\<open>id\<close> and
  \<^verbatim>\<open>line_items\<close> in this order: no white space, an absent property
  left out (identifiers without characters that JSON escapes).
\<close>

definition keyed_copy :: "string \<Rightarrow> string \<Rightarrow> string" where
  "keyed_copy key message = key @ CHR '':'' # message"

definition json_number :: "int \<Rightarrow> string" where
  "json_number n = toString (IdNumber n)"

definition json_line_item :: "line_item \<Rightarrow> string" where
  \<open>json_line_item lineItem =
     ''{"variant_id":'' @ json_number (variant_id lineItem) @
     '',"quantity":'' @ json_number (quantity lineItem) @ ''}''\<close>

fun json_list :: "string list \<Rightarrow> string" where
  "json_list [] = []"
| "json_list [x] = x"
| "json_list (x # y # rest) = x @ CHR '','' # json_list (y # rest)"

definition json_id_property :: "json_id option \<Rightarrow> string list" where
  \<open>json_id_property i =
     (case i of
        None \<Rightarrow> []
      | Some (IdNumber n) \<Rightarrow> [''"id":'' @ json_number n]
      | Some (IdString s) \<Rightarrow> [''"id":"'' @ s @ ''"''])\<close>

definition json_items_property :: "line_item list option \<Rightarrow> string list" where
  \<open>json_items_property items =
     (case items of
        None \<Rightarrow> []
      | Some ls \<Rightarrow> [''"line_items":['' @ json_list (map json_line_item ls) @ '']''])\<close>

definition compact_json :: "order \<Rightarrow> string" where
  "compact_json order =
     ''{'' @ json_list (json_id_property (order_id order) @ json_items_property (line_items order)) @ ''}''"

text \<open>
  A delivery of order 1001 whose bytes have a blank after each colon and comma, signed
  over these bytes with the key \<^verbatim>\<open>shhh\<close>.
\<close>

definition spaced_delivery :: webhook_request where
  \<open>spaced_delivery =
     \<lparr>hmac_header =
        Some (keyed_copy ''shhh''
          ''{"id": 1001, "line_items": [{"variant_id": 55, "quantity": 2}]}''),
      raw_body = ''{"id": 1001, "line_items": [{"variant_id": 55, "quantity": 2}]}'',
      body = order_1001\<rparr>\<close>

section \<open>Observations are additive\<close>

lemma lookups_append: "lookups (xs @ ys) = lookups xs @ lookups ys"
  by (simp add: lookups_def map_filter_def)

lemma mutations_append: "mutations (xs @ ys) = mutations xs @ mutations ys"
  by (simp add: mutations_def map_filter_def)

lemma adjusted_append: "adjusted (xs @ ys) = adjusted xs @ adjusted ys"
  by (simp add: adjusted_def map_filter_def)

lemma failures_append: "failures (xs @ ys) = failures xs + failures ys"
  by (simp add: failures_def)

lemma net_adjusted_append: "net_adjusted v (xs @ ys) = net_adjusted v xs + net_adjusted v ys"
  by (simp add: net_adjusted_def adjusted_append)

lemma lookups_Nil: "lookups [] = []"
  by (simp add: lookups_def map_filter_def)

lemma mutations_Nil: "mutations [] = []"
  by (simp add: mutations_def map_filter_def)

lemma adjusted_Nil: "adjusted [] = []"
  by (simp add: adjusted_def map_filter_def)

lemma failures_Nil: "failures [] = 0"
  by (simp add: failures_def)

lemma lookups_Cons: "lookups (c # cs) = (case lookup_of c of None \<Rightarrow> [] | Some v \<Rightarrow> [v]) @ lookups cs"
  by (simp add: lookups_def map_filter_def split: option.split)

lemma mutations_Cons:
  "mutations (c # cs) = (case mutation_of c of None \<Rightarrow> [] | Some m \<Rightarrow> [m]) @ mutations cs"
  by (simp add: mutations_def map_filter_def split: option.split)

lemma adjusted_Cons:
  "adjusted (l # ls) = (case adjustment_of l of None \<Rightarrow> [] | Some a \<Rightarrow> [a]) @ adjusted ls"
  by (simp add: adjusted_def map_filter_def split: option.split)

lemma failures_Cons: "failures (l # ls) = (if is_failure l then 1 else 0) + failures ls"
  by (simp add: failures_def)

lemmas observe = lookups_append mutations_append adjusted_append failures_append
  lookups_Nil mutations_Nil adjusted_Nil failures_Nil
  lookups_Cons mutations_Cons adjusted_Cons failures_Cons

lemmas adjust_defs = updateInventoryForVariant_def shopifyAPI_def log_def Let_def

lemmas adjust_splits = prod.splits sum.splits api_outcome.splits api_response.splits list.splits

section \<open>The inventory API client: one invocation\<close>

lemma adjust_tracked:
  "updateInventoryForVariant env v d s = (r, s') \<Longrightarrow> processedOrders s' = processedOrders s"
  by (auto simp: adjust_defs split: adjust_splits)

lemma adjust_lookups:
  "updateInventoryForVariant env v d s = (r, s') \<Longrightarrow>
     lookups (requests s') = lookups (requests s) @ [v]"
  by (auto simp: adjust_defs observe split: adjust_splits)

lemma adjust_failures:
  "updateInventoryForVariant env v d s = (r, s') \<Longrightarrow> failures (console s') = failures (console s)"
  by (auto simp: adjust_defs observe split: adjust_splits)

lemma adjust_adjusted:
  "updateInventoryForVariant env v d s = (r, s') \<Longrightarrow>
     adjusted (console s') = adjusted (console s) @ (case r of Inr _ \<Rightarrow> [(v, d)] | Inl _ \<Rightarrow> [])"
  by (auto simp: adjust_defs observe split: adjust_splits)


text \<open>
  The console line that stands for an applied adjustment is written exactly when the
  adjustment call was sent and answered: then it is the last call made, and it carries the
  delta asked for.
\<close>

lemma adjust_applied_iff_answered:
  "updateInventoryForVariant env v d s = (r, s') \<Longrightarrow>
     (r = Inr () \<and> adjusted (console s') = adjusted (console s) @ [(v, d)] \<and>
      (\<exists>l i a. requests s' = butlast (requests s') @ [PostAdjust l i d] \<and>
         env (butlast (requests s')) (PostAdjust l i d) = Responded a \<and>
         mutations (requests s') = mutations (requests s) @ [(l, i, d)])) \<or>
     ((\<exists>e. r = Inl (InventoryUpdateFailed e)) \<and> adjusted (console s') = adjusted (console s))"
  by (auto simp: adjust_defs observe butlast_append split: adjust_splits)

lemma adjust_refines:
  "updateInventoryForVariant env v d s = (r, s') \<Longrightarrow>
     r = fst (expected_adjustment env (requests s) (v, d)) \<and>
     requests s' = requests s @ snd (expected_adjustment env (requests s) (v, d))"
  by (auto simp: adjust_defs expected_adjustment_def split: adjust_splits)

text \<open>
  Claim C6. \<^verbatim>\<open>updateInventoryForVariant\<close> looks the variant up,
  then the inventory levels of its inventory item, takes the first level returned, and
  sends one adjustment with that level's location, the inventory item and the delta.
  Whenever both look-ups are answered and there is a level, exactly these three calls are
  sent, in this order, whether the platform then answers the adjustment or refuses it, and
  the invocation succeeds exactly when the adjustment is answered; an invocation that
  succeeds has made exactly these two reads and this one mutating call. When the platform
  returns no inventory level, the invocation fails with
  \<^verbatim>\<open>No inventory levels found\<close> after the two reads, and no
  mutating call is made; when a look-up is not answered, the invocation fails after it and
  nothing more is sent. The set \<^verbatim>\<open>processedOrders\<close> is never
  touched.
\<close>

theorem updateInventoryForVariant_sequence:
  "(updateInventoryForVariant env v d s = (Inr u, s') \<longrightarrow>
      (\<exists>item level others.
         env (requests s) (GetVariant v) = Responded (VariantResponse item) \<and>
         env (requests s @ [GetVariant v]) (GetInventoryLevels item) =
           Responded (InventoryLevelsResponse (level # others)) \<and>
         requests s' =
           requests s @ [GetVariant v, GetInventoryLevels item, PostAdjust (location_id level) item d] \<and>
         mutations (requests s') = mutations (requests s) @ [(location_id level, item, d)])) \<and>
   (env (requests s) (GetVariant v) = Responded (VariantResponse item0) \<and>
    env (requests s @ [GetVariant v]) (GetInventoryLevels item0) =
      Responded (InventoryLevelsResponse []) \<longrightarrow>
      (\<exists>t. updateInventoryForVariant env v d s =
             (Inl (InventoryUpdateFailed (NoInventoryLevels v)), t) \<and>
           requests t = requests s @ [GetVariant v, GetInventoryLevels item0] \<and>
           mutations (requests t) = mutations (requests s))) \<and>
   (env (requests s) (GetVariant v) = Responded (VariantResponse item1) \<and>
    env (requests s @ [GetVariant v]) (GetInventoryLevels item1) =
      Responded (InventoryLevelsResponse (level1 # others1)) \<longrightarrow>
      requests (snd (updateInventoryForVariant env v d s)) =
        requests s @
          [GetVariant v, GetInventoryLevels item1, PostAdjust (location_id level1) item1 d] \<and>
      mutations (requests (snd (updateInventoryForVariant env v d s))) =
        mutations (requests s) @ [(location_id level1, item1, d)] \<and>
      fst (updateInventoryForVariant env v d s) =
        (case env (requests s @ [GetVariant v, GetInventoryLevels item1])
                (PostAdjust (location_id level1) item1 d) of
           Responded a \<Rightarrow> Inr ()
         | ErrorResponse st t \<Rightarrow> Inl (InventoryUpdateFailed (ShopifyAPIError st t))
         | NoResponse m \<Rightarrow> Inl (InventoryUpdateFailed (TransportError m)))) \<and>
   ((\<forall>item. env (requests s) (GetVariant v) \<noteq> Responded (VariantResponse item)) \<longrightarrow>
      requests (snd (updateInventoryForVariant env v d s)) = requests s @ [GetVariant v] \<and>
      (\<exists>e. fst (updateInventoryForVariant env v d s) = Inl (InventoryUpdateFailed e))) \<and>
   (env (requests s) (GetVariant v) = Responded (VariantResponse item2) \<and>
    (\<forall>levels. env (requests s @ [GetVariant v]) (GetInventoryLevels item2) \<noteq>
       Responded (InventoryLevelsResponse levels)) \<longrightarrow>
      requests (snd (updateInventoryForVariant env v d s)) =
        requests s @ [GetVariant v, GetInventoryLevels item2] \<and>
      (\<exists>e. fst (updateInventoryForVariant env v d s) = Inl (InventoryUpdateFailed e))) \<and>
   processedOrders (snd (updateInventoryForVariant env v d s)) = processedOrders s"
proof (intro conjI impI)
  show "\<exists>item level others.
         env (requests s) (GetVariant v) = Responded (VariantResponse item) \<and>
         env (requests s @ [GetVariant v]) (GetInventoryLevels item) =
           Responded (InventoryLevelsResponse (level # others)) \<and>
         requests s' =
           requests s @ [GetVariant v, GetInventoryLevels item, PostAdjust (location_id level) item d] \<and>
         mutations (requests s') = mutations (requests s) @ [(location_id level, item, d)]"
    if "updateInventoryForVariant env v d s = (Inr u, s')"
    using that by (auto simp: adjust_defs observe split: adjust_splits)
  show "\<exists>t. updateInventoryForVariant env v d s =
             (Inl (InventoryUpdateFailed (NoInventoryLevels v)), t) \<and>
           requests t = requests s @ [GetVariant v, GetInventoryLevels item0] \<and>
           mutations (requests t) = mutations (requests s)"
    if "env (requests s) (GetVariant v) = Responded (VariantResponse item0) \<and>
      env (requests s @ [GetVariant v]) (GetInventoryLevels item0) =
        Responded (InventoryLevelsResponse [])"
    using that by (auto simp: adjust_defs observe split: adjust_splits)
  assume answered: "env (requests s) (GetVariant v) = Responded (VariantResponse item1) \<and>
    env (requests s @ [GetVariant v]) (GetInventoryLevels item1) =
      Responded (InventoryLevelsResponse (level1 # others1))"
  then show "requests (snd (updateInventoryForVariant env v d s)) =
        requests s @
          [GetVariant v, GetInventoryLevels item1, PostAdjust (location_id level1) item1 d]"
    by (auto simp: adjust_defs observe split: adjust_splits)
  from answered show "mutations (requests (snd (updateInventoryForVariant env v d s))) =
        mutations (requests s) @ [(location_id level1, item1, d)]"
    by (auto simp: adjust_defs observe split: adjust_splits)
  from answered show "fst (updateInventoryForVariant env v d s) =
        (case env (requests s @ [GetVariant v, GetInventoryLevels item1])
                (PostAdjust (location_id level1) item1 d) of
           Responded a \<Rightarrow> Inr ()
         | ErrorResponse st t \<Rightarrow> Inl (InventoryUpdateFailed (ShopifyAPIError st t))
         | NoResponse m \<Rightarrow> Inl (InventoryUpdateFailed (TransportError m)))"
    by (auto simp: adjust_defs observe split: adjust_splits)
next
  assume "\<forall>item. env (requests s) (GetVariant v) \<noteq> Responded (VariantResponse item)"
  then show "requests (snd (updateInventoryForVariant env v d s)) = requests s @ [GetVariant v]"
    and "\<exists>e. fst (updateInventoryForVariant env v d s) = Inl (InventoryUpdateFailed e)"
    by (auto simp: adjust_defs observe split: adjust_splits)
next
  assume "env (requests s) (GetVariant v) = Responded (VariantResponse item2) \<and>
    (\<forall>levels. env (requests s @ [GetVariant v]) (GetInventoryLevels item2) \<noteq>
       Responded (InventoryLevelsResponse levels))"
  then show "requests (snd (updateInventoryForVariant env v d s)) =
        requests s @ [GetVariant v, GetInventoryLevels item2]"
    and "\<exists>e. fst (updateInventoryForVariant env v d s) = Inl (InventoryUpdateFailed e)"
    by (auto simp: adjust_defs observe split: adjust_splits)
next
  show "processedOrders (snd (updateInventoryForVariant env v d s)) = processedOrders s"
    by (auto simp: adjust_defs split: adjust_splits)
qed

text \<open>
  Variant 55 on the platform where every call succeeds, on the one where its inventory
  item has no level, on the one that refuses the adjustment (the adjustment is sent all
  the same), and on the one that answers nothing.
\<close>

theorem updateInventoryForVariant_sequence_witness:
  "(\<exists>t. updateInventoryForVariant platform_up 55 (- 2) init = (Inr (), t) \<and>
        requests t = [GetVariant 55, GetInventoryLevels 1055, PostAdjust 7 1055 (- 2)] \<and>
        mutations (requests t) = [(7, 1055, - 2)]) \<and>
   (\<exists>t. updateInventoryForVariant platform_unstocked 55 (- 2) init =
           (Inl (InventoryUpdateFailed (NoInventoryLevels 55)), t) \<and>
        requests t = [GetVariant 55, GetInventoryLevels 1055] \<and>
        mutations (requests t) = []) \<and>
   requests (snd (updateInventoryForVariant platform_readonly 55 (- 2) init)) =
     [GetVariant 55, GetInventoryLevels 1055, PostAdjust 7 1055 (- 2)] \<and>
   fst (updateInventoryForVariant platform_readonly 55 (- 2) init) =
     Inl (InventoryUpdateFailed (ShopifyAPIError 422 ''refused'')) \<and>
   requests (snd (updateInventoryForVariant platform_down 55 (- 2) init)) = [GetVariant 55]"
proof -
  note sequence = updateInventoryForVariant_sequence
  obtain u t where run: "updateInventoryForVariant platform_up 55 (- 2) init = (Inr u, t)"
    by (simp add: adjust_defs init_def)
  have up: "requests t = [GetVariant 55, GetInventoryLevels 1055, PostAdjust 7 1055 (- 2)] \<and>
      mutations (requests t) = [(7, 1055, - 2)]"
    using sequence [of platform_up 55 "- 2" init u t] run
    by (auto simp: init_def observe)
  have unstocked: "\<exists>t. updateInventoryForVariant platform_unstocked 55 (- 2) init =
           (Inl (InventoryUpdateFailed (NoInventoryLevels 55)), t) \<and>
        requests t = [GetVariant 55, GetInventoryLevels 1055] \<and>
        mutations (requests t) = []"
    using sequence [where env = platform_unstocked and v = 55 and d = "- 2" and s = init
        and ?item0.0 = 1055]
    by (simp add: init_def observe)
  have refused: "requests (snd (updateInventoryForVariant platform_readonly 55 (- 2) init)) =
      [GetVariant 55, GetInventoryLevels 1055, PostAdjust 7 1055 (- 2)] \<and>
    fst (updateInventoryForVariant platform_readonly 55 (- 2) init) =
      Inl (InventoryUpdateFailed (ShopifyAPIError 422 ''refused''))"
    using sequence [where env = platform_readonly and v = 55 and d = "- 2" and s = init
        and ?item1.0 = 1055 and ?level1.0 = "\<lparr>location_id = 7, available = 40\<rparr>"
        and ?others1.0 = "[]"]
    by (simp add: init_def)
  have down: "requests (snd (updateInventoryForVariant platform_down 55 (- 2) init)) = [GetVariant 55]"
    using sequence [where env = platform_down and v = 55 and d = "- 2" and s = init]
    by (simp add: init_def platform_down_def)
  from run up unstocked refused down show ?thesis
    by (simp add: observe)
qed

section \<open>The loops over the line items\<close>


lemma adjust_set_independent:
  "updateInventoryForVariant env v d (s\<lparr>processedOrders := P\<rparr>) =
     (fst (updateInventoryForVariant env v d s),
      (snd (updateInventoryForVariant env v d s))\<lparr>processedOrders := P\<rparr>)"
  by (auto simp: adjust_defs split: adjust_splits)

lemma log_simps:
  "processedOrders (log l s) = processedOrders s"
  "requests (log l s) = requests s"
  "console (log l s) = console s @ [l]"
  by (simp_all add: log_def)

lemma log_set_independent: "log l (s\<lparr>processedOrders := P\<rparr>) = (log l s)\<lparr>processedOrders := P\<rparr>"
  by (simp add: log_def)

subsection \<open>The deduction loop\<close>

lemma deduct_tracked: "processedOrders (deduct_items env items s) = processedOrders s"
  by (induction items arbitrary: s) (auto simp: log_simps split: prod.splits sum.splits dest: adjust_tracked)

lemma deduct_lookups:
  "lookups (requests (deduct_items env items s)) = lookups (requests s) @ map variant_id items"
  by (induction items arbitrary: s) (auto simp: log_simps split: prod.splits sum.splits dest: adjust_lookups)

lemma deduct_failures_mono: "failures (console s) \<le> failures (console (deduct_items env items s))"
proof (induction items arbitrary: s)
  case Nil
  show ?case by simp
next
  case (Cons lineItem rest)
  obtain r s' where step:
    "updateInventoryForVariant env (variant_id lineItem) (- quantity lineItem) s = (r, s')"
    by (cases "updateInventoryForVariant env (variant_id lineItem) (- quantity lineItem) s")
  from adjust_failures [OF step] have same: "failures (console s') = failures (console s)" .
  show ?case
  proof (cases r)
    case (Inl e)
    with step same Cons.IH [of "log (LogUpdateFailed (variant_id lineItem) e) s'"]
    show ?thesis by (simp add: log_simps observe)
  next
    case (Inr u)
    with step same Cons.IH [of "log (LogUpdated (variant_id lineItem) (quantity lineItem)) s'"]
    show ?thesis by (simp add: log_simps observe)
  qed
qed

lemma deduct_adjusted:
  "failures (console (deduct_items env items s)) = failures (console s) \<Longrightarrow>
     adjusted (console (deduct_items env items s)) = adjusted (console s) @ map deduction items"
proof (induction items arbitrary: s)
  case Nil
  show ?case by simp
next
  case (Cons lineItem rest)
  obtain r s' where step:
    "updateInventoryForVariant env (variant_id lineItem) (- quantity lineItem) s = (r, s')"
    by (cases "updateInventoryForVariant env (variant_id lineItem) (- quantity lineItem) s")
  from adjust_failures [OF step] have same: "failures (console s') = failures (console s)" .
  show ?case
  proof (cases r)
    case (Inl e)
    let ?t = "log (LogUpdateFailed (variant_id lineItem) e) s'"
    have "failures (console ?t) = Suc (failures (console s))"
      using same by (simp add: log_simps observe)
    moreover have "failures (console ?t) \<le> failures (console (deduct_items env rest ?t))"
      by (rule deduct_failures_mono)
    moreover have "deduct_items env (lineItem # rest) s = deduct_items env rest ?t"
      using step Inl by simp
    ultimately show ?thesis using Cons.prems by simp
  next
    case (Inr u)
    let ?t = "log (LogUpdated (variant_id lineItem) (quantity lineItem)) s'"
    have unfold: "deduct_items env (lineItem # rest) s = deduct_items env rest ?t"
      using step Inr by simp
    have "failures (console ?t) = failures (console s)"
      using same by (simp add: log_simps observe)
    with Cons.prems unfold have "failures (console (deduct_items env rest ?t)) = failures (console ?t)"
      by simp
    from Cons.IH [OF this] adjust_adjusted [OF step] Inr unfold
    show ?thesis by (simp add: log_simps observe deduction_def)
  qed
qed

lemma deduct_set_independent:
  "deduct_items env items (s\<lparr>processedOrders := P\<rparr>) = (deduct_items env items s)\<lparr>processedOrders := P\<rparr>"
  by (induction items arbitrary: s)
     (auto simp: adjust_set_independent log_set_independent split: prod.splits sum.splits)

lemma deduct_accounting:
  "failures (console (deduct_items env items s)) + length (adjusted (console (deduct_items env items s))) =
     failures (console s) + length (adjusted (console s)) + length items"
proof (induction items arbitrary: s)
  case Nil
  show ?case by simp
next
  case (Cons lineItem rest)
  obtain r s' where step:
    "updateInventoryForVariant env (variant_id lineItem) (- quantity lineItem) s = (r, s')"
    by (cases "updateInventoryForVariant env (variant_id lineItem) (- quantity lineItem) s")
  note one = adjust_failures [OF step] adjust_adjusted [OF step]
  show ?case
  proof (cases r)
    case (Inl e)
    with step one Cons.IH [of "log (LogUpdateFailed (variant_id lineItem) e) s'"]
    show ?thesis by (simp add: log_simps observe)
  next
    case (Inr u)
    with step one Cons.IH [of "log (LogUpdated (variant_id lineItem) (quantity lineItem)) s'"]
    show ?thesis by (simp add: log_simps observe)
  qed
qed

subsection \<open>The restoration loop\<close>

lemma restore_tracked: "processedOrders (restore_items env items s) = processedOrders s"
  by (induction items arbitrary: s) (auto simp: log_simps split: prod.splits sum.splits dest: adjust_tracked)

lemma restore_lookups:
  "lookups (requests (restore_items env items s)) = lookups (requests s) @ map variant_id items"
  by (induction items arbitrary: s) (auto simp: log_simps split: prod.splits sum.splits dest: adjust_lookups)

lemma restore_failures_mono: "failures (console s) \<le> failures (console (restore_items env items s))"
proof (induction items arbitrary: s)
  case Nil
  show ?case by simp
next
  case (Cons lineItem rest)
  obtain r s' where step:
    "updateInventoryForVariant env (variant_id lineItem) (quantity lineItem) s = (r, s')"
    by (cases "updateInventoryForVariant env (variant_id lineItem) (quantity lineItem) s")
  from adjust_failures [OF step] have same: "failures (console s') = failures (console s)" .
  show ?case
  proof (cases r)
    case (Inl e)
    with step same Cons.IH [of "log (LogRestoreFailed (variant_id lineItem) e) s'"]
    show ?thesis by (simp add: log_simps observe)
  next
    case (Inr u)
    with step same Cons.IH [of "log (LogRestored (variant_id lineItem) (quantity lineItem)) s'"]
    show ?thesis by (simp add: log_simps observe)
  qed
qed

lemma restore_adjusted:
  "failures (console (restore_items env items s)) = failures (console s) \<Longrightarrow>
     adjusted (console (restore_items env items s)) = adjusted (console s) @ map restoration items"
proof (induction items arbitrary: s)
  case Nil
  show ?case by simp
next
  case (Cons lineItem rest)
  obtain r s' where step:
    "updateInventoryForVariant env (variant_id lineItem) (quantity lineItem) s = (r, s')"
    by (cases "updateInventoryForVariant env (variant_id lineItem) (quantity lineItem) s")
  from adjust_failures [OF step] have same: "failures (console s') = failures (console s)" .
  show ?case
  proof (cases r)
    case (Inl e)
    let ?t = "log (LogRestoreFailed (variant_id lineItem) e) s'"
    have "failures (console ?t) = Suc (failures (console s))"
      using same by (simp add: log_simps observe)
    moreover have "failures (console ?t) \<le> failures (console (restore_items env rest ?t))"
      by (rule restore_failures_mono)
    moreover have "restore_items env (lineItem # rest) s = restore_items env rest ?t"
      using step Inl by simp
    ultimately show ?thesis using Cons.prems by simp
  next
    case (Inr u)
    let ?t = "log (LogRestored (variant_id lineItem) (quantity lineItem)) s'"
    have unfold: "restore_items env (lineItem # rest) s = restore_items env rest ?t"
      using step Inr by simp
    have "failures (console ?t) = failures (console s)"
      using same by (simp add: log_simps observe)
    with Cons.prems unfold have "failures (console (restore_items env rest ?t)) = failures (console ?t)"
      by simp
    from Cons.IH [OF this] adjust_adjusted [OF step] Inr unfold
    show ?thesis by (simp add: log_simps observe restoration_def)
  qed
qed

lemma restore_set_independent:
  "restore_items env items (s\<lparr>processedOrders := P\<rparr>) = (restore_items env items s)\<lparr>processedOrders := P\<rparr>"
  by (induction items arbitrary: s)
     (auto simp: adjust_set_independent log_set_independent split: prod.splits sum.splits)

lemma restore_accounting:
  "failures (console (restore_items env items s)) + length (adjusted (console (restore_items env items s))) =
     failures (console s) + length (adjusted (console s)) + length items"
proof (induction items arbitrary: s)
  case Nil
  show ?case by simp
next
  case (Cons lineItem rest)
  obtain r s' where step:
    "updateInventoryForVariant env (variant_id lineItem) (quantity lineItem) s = (r, s')"
    by (cases "updateInventoryForVariant env (variant_id lineItem) (quantity lineItem) s")
  note one = adjust_failures [OF step] adjust_adjusted [OF step]
  show ?case
  proof (cases r)
    case (Inl e)
    with step one Cons.IH [of "log (LogRestoreFailed (variant_id lineItem) e) s'"]
    show ?thesis by (simp add: log_simps observe)
  next
    case (Inr u)
    with step one Cons.IH [of "log (LogRestored (variant_id lineItem) (quantity lineItem)) s'"]
    show ?thesis by (simp add: log_simps observe)
  qed
qed

subsection \<open>The compensation loop\<close>

lemma compensate_tracked: "processedOrders (compensate_items env items s) = processedOrders s"
  by (induction items arbitrary: s) (auto simp: log_simps split: prod.splits sum.splits dest: adjust_tracked)

lemma compensate_lookups:
  "lookups (requests (compensate_items env items s)) = lookups (requests s) @ map variant_id items"
  by (induction items arbitrary: s) (auto simp: log_simps split: prod.splits sum.splits dest: adjust_lookups)

lemma compensate_failures_mono: "failures (console s) \<le> failures (console (compensate_items env items s))"
proof (induction items arbitrary: s)
  case Nil
  show ?case by simp
next
  case (Cons lineItem rest)
  obtain r s' where step:
    "updateInventoryForVariant env (variant_id lineItem) (quantity lineItem) s = (r, s')"
    by (cases "updateInventoryForVariant env (variant_id lineItem) (quantity lineItem) s")
  from adjust_failures [OF step] have same: "failures (console s') = failures (console s)" .
  show ?case
  proof (cases r)
    case (Inl e)
    with step same Cons.IH [of "log (LogCompensateFailed (variant_id lineItem) e) s'"]
    show ?thesis by (simp add: log_simps observe)
  next
    case (Inr u)
    with step same Cons.IH [of "log (LogCompensated (variant_id lineItem) (quantity lineItem)) s'"]
    show ?thesis by (simp add: log_simps observe)
  qed
qed

lemma compensate_adjusted:
  "failures (console (compensate_items env items s)) = failures (console s) \<Longrightarrow>
     adjusted (console (compensate_items env items s)) = adjusted (console s) @ map restoration items"
proof (induction items arbitrary: s)
  case Nil
  show ?case by simp
next
  case (Cons lineItem rest)
  obtain r s' where step:
    "updateInventoryForVariant env (variant_id lineItem) (quantity lineItem) s = (r, s')"
    by (cases "updateInventoryForVariant env (variant_id lineItem) (quantity lineItem) s")
  from adjust_failures [OF step] have same: "failures (console s') = failures (console s)" .
  show ?case
  proof (cases r)
    case (Inl e)
    let ?t = "log (LogCompensateFailed (variant_id lineItem) e) s'"
    have "failures (console ?t) = Suc (failures (console s))"
      using same by (simp add: log_simps observe)
    moreover have "failures (console ?t) \<le> failures (console (compensate_items env rest ?t))"
      by (rule compensate_failures_mono)
    moreover have "compensate_items env (lineItem # rest) s = compensate_items env rest ?t"
      using step Inl by simp
    ultimately show ?thesis using Cons.prems by simp
  next
    case (Inr u)
    let ?t = "log (LogCompensated (variant_id lineItem) (quantity lineItem)) s'"
    have unfold: "compensate_items env (lineItem # rest) s = compensate_items env rest ?t"
      using step Inr by simp
    have "failures (console ?t) = failures (console s)"
      using same by (simp add: log_simps observe)
    with Cons.prems unfold have "failures (console (compensate_items env rest ?t)) = failures (console ?t)"
      by simp
    from Cons.IH [OF this] adjust_adjusted [OF step] Inr unfold
    show ?thesis by (simp add: log_simps observe restoration_def)
  qed
qed

lemma compensate_set_independent:
  "compensate_items env items (s\<lparr>processedOrders := P\<rparr>) = (compensate_items env items s)\<lparr>processedOrders := P\<rparr>"
  by (induction items arbitrary: s)
     (auto simp: adjust_set_independent log_set_independent split: prod.splits sum.splits)

lemma compensate_accounting:
  "failures (console (compensate_items env items s)) + length (adjusted (console (compensate_items env items s))) =
     failures (console s) + length (adjusted (console s)) + length items"
proof (induction items arbitrary: s)
  case Nil
  show ?case by simp
next
  case (Cons lineItem rest)
  obtain r s' where step:
    "updateInventoryForVariant env (variant_id lineItem) (quantity lineItem) s = (r, s')"
    by (cases "updateInventoryForVariant env (variant_id lineItem) (quantity lineItem) s")
  note one = adjust_failures [OF step] adjust_adjusted [OF step]
  show ?case
  proof (cases r)
    case (Inl e)
    with step one Cons.IH [of "log (LogCompensateFailed (variant_id lineItem) e) s'"]
    show ?thesis by (simp add: log_simps observe)
  next
    case (Inr u)
    with step one Cons.IH [of "log (LogCompensated (variant_id lineItem) (quantity lineItem)) s'"]
    show ?thesis by (simp add: log_simps observe)
  qed
qed

subsection \<open>The two terminal loops side by side\<close>


subsection \<open>The loops against the answers of the platform\<close>

lemma deduct_refines:
  "requests (deduct_items env items s) =
     requests s @ attempted_calls env (requests s) (map deduction items) \<and>
   adjusted (console (deduct_items env items s)) =
     adjusted (console s) @ attempted_applied env (requests s) (map deduction items) \<and>
   failures (console (deduct_items env items s)) +
       length (attempted_applied env (requests s) (map deduction items)) =
     failures (console s) + length items"
proof (induction items arbitrary: s)
  case Nil
  show ?case by simp
next
  case (Cons lineItem rest)
  obtain r s' where step:
    "updateInventoryForVariant env (variant_id lineItem) (- quantity lineItem) s = (r, s')"
    by (cases "updateInventoryForVariant env (variant_id lineItem) (- quantity lineItem) s")
  obtain calls where expected:
    "expected_adjustment env (requests s) (deduction lineItem) = (r, calls)"
    and sent: "requests s' = requests s @ calls"
    using adjust_refines [OF step] by (cases "expected_adjustment env (requests s) (deduction lineItem)")
      (simp add: deduction_def)
  note one = adjust_failures [OF step] adjust_adjusted [OF step]
  show ?case
  proof (cases r)
    case (Inl e)
    with step expected sent one Cons.IH [of "log (LogUpdateFailed (variant_id lineItem) e) s'"]
    show ?thesis by (simp add: log_simps observe)
  next
    case (Inr u)
    with step expected sent one
      Cons.IH [of "log (LogUpdated (variant_id lineItem) (quantity lineItem)) s'"]
    show ?thesis by (simp add: log_simps observe deduction_def)
  qed
qed

lemma restore_refines:
  "requests (restore_items env items s) =
     requests s @ attempted_calls env (requests s) (map restoration items) \<and>
   adjusted (console (restore_items env items s)) =
     adjusted (console s) @ attempted_applied env (requests s) (map restoration items) \<and>
   failures (console (restore_items env items s)) +
       length (attempted_applied env (requests s) (map restoration items)) =
     failures (console s) + length items"
proof (induction items arbitrary: s)
  case Nil
  show ?case by simp
next
  case (Cons lineItem rest)
  obtain r s' where step:
    "updateInventoryForVariant env (variant_id lineItem) (quantity lineItem) s = (r, s')"
    by (cases "updateInventoryForVariant env (variant_id lineItem) (quantity lineItem) s")
  obtain calls where expected:
    "expected_adjustment env (requests s) (restoration lineItem) = (r, calls)"
    and sent: "requests s' = requests s @ calls"
    using adjust_refines [OF step] by (cases "expected_adjustment env (requests s) (restoration lineItem)")
      (simp add: restoration_def)
  note one = adjust_failures [OF step] adjust_adjusted [OF step]
  show ?case
  proof (cases r)
    case (Inl e)
    with step expected sent one Cons.IH [of "log (LogRestoreFailed (variant_id lineItem) e) s'"]
    show ?thesis by (simp add: log_simps observe)
  next
    case (Inr u)
    with step expected sent one
      Cons.IH [of "log (LogRestored (variant_id lineItem) (quantity lineItem)) s'"]
    show ?thesis by (simp add: log_simps observe restoration_def)
  qed
qed

lemma compensate_refines:
  "requests (compensate_items env items s) =
     requests s @ attempted_calls env (requests s) (map restoration items) \<and>
   adjusted (console (compensate_items env items s)) =
     adjusted (console s) @ attempted_applied env (requests s) (map restoration items) \<and>
   failures (console (compensate_items env items s)) +
       length (attempted_applied env (requests s) (map restoration items)) =
     failures (console s) + length items"
proof (induction items arbitrary: s)
  case Nil
  show ?case by simp
next
  case (Cons lineItem rest)
  obtain r s' where step:
    "updateInventoryForVariant env (variant_id lineItem) (quantity lineItem) s = (r, s')"
    by (cases "updateInventoryForVariant env (variant_id lineItem) (quantity lineItem) s")
  obtain calls where expected:
    "expected_adjustment env (requests s) (restoration lineItem) = (r, calls)"
    and sent: "requests s' = requests s @ calls"
    using adjust_refines [OF step] by (cases "expected_adjustment env (requests s) (restoration lineItem)")
      (simp add: restoration_def)
  note one = adjust_failures [OF step] adjust_adjusted [OF step]
  show ?case
  proof (cases r)
    case (Inl e)
    with step expected sent one Cons.IH [of "log (LogCompensateFailed (variant_id lineItem) e) s'"]
    show ?thesis by (simp add: log_simps observe)
  next
    case (Inr u)
    with step expected sent one
      Cons.IH [of "log (LogCompensated (variant_id lineItem) (quantity lineItem)) s'"]
    show ?thesis by (simp add: log_simps observe restoration_def)
  qed
qed

text \<open>
  Where an adjustment stands in the list, and whatever became of those before it, its
  calls are those of one full adjustment at the history reached.
\<close>

lemma attempted_calls_append:
  "attempted_calls env history (xs @ ys) =
     attempted_calls env history xs @
       attempted_calls env (history @ attempted_calls env history xs) ys"
  by (induction xs arbitrary: history) (simp_all add: Let_def)

lemma attempted_calls_position:
  "attempted_calls env history (before @ a # after) =
     attempted_calls env history before @
     snd (expected_adjustment env (history @ attempted_calls env history before) a) @
     attempted_calls env
       (history @ attempted_calls env history before @
          snd (expected_adjustment env (history @ attempted_calls env history before) a))
       after"
  by (simp add: attempted_calls_append Let_def)

lemma applied_calls:
  "expected_adjustment env history a = (Inr u, calls) \<Longrightarrow>
     \<exists>l i. calls = [GetVariant (fst a), GetInventoryLevels i, PostAdjust l i (snd a)]"
  by (auto simp: expected_adjustment_def Let_def split: adjust_splits)

lemma attempted_applied_length: "length (attempted_applied env history as) \<le> length as"
proof (induction as arbitrary: history)
  case Nil
  show ?case by simp
next
  case (Cons a rest)
  obtain r calls where "expected_adjustment env history a = (r, calls)"
    by (cases "expected_adjustment env history a")
  with Cons.IH [of "history @ calls"] show ?case
    by (cases r) (simp_all add: le_SucI)
qed

lemma all_applied_mutations:
  "attempted_applied env history as = as \<Longrightarrow>
     map (\<lambda>m. snd (snd m)) (mutations (attempted_calls env history as)) = map snd as"
proof (induction as arbitrary: history)
  case Nil
  show ?case by (simp add: observe)
next
  case (Cons a rest)
  obtain r calls where expected: "expected_adjustment env history a = (r, calls)"
    by (cases "expected_adjustment env history a")
  show ?case
  proof (cases r)
    case (Inl e)
    with expected Cons.prems have "attempted_applied env (history @ calls) rest = a # rest"
      by simp
    moreover have "length (attempted_applied env (history @ calls) rest) \<le> length rest"
      by (rule attempted_applied_length)
    ultimately show ?thesis by simp
  next
    case (Inr u)
    with expected Cons.prems have rest: "attempted_applied env (history @ calls) rest = rest"
      by simp
    from applied_calls expected Inr obtain l i where
      "calls = [GetVariant (fst a), GetInventoryLevels i, PostAdjust l i (snd a)]"
      by blast
    with expected Cons.IH [OF rest] show ?thesis
      by (simp add: observe)
  qed
qed

section \<open>The web-hook handlers\<close>

lemmas handler_defs = order_created_def order_cancelled_def order_fulfilled_def
  updateInventoryForOrder_def ok_response_def internal_error_def Let_def

lemma created_unfold:
  "order_id order = Some i \<Longrightarrow> line_items order = Some items \<Longrightarrow>
     order_created env order s =
       (ok_response,
        log (LogOrderProcessed (Some i))
          (deduct_items env items
            ((log (LogProcessingOrder (Some i) (length items))
               (log LogOrderNumber (log (LogNewOrder (Some i)) s)))
             \<lparr>processedOrders := insert (toString i) (processedOrders s)\<rparr>)))"
  by (simp add: order_created_def updateInventoryForOrder_def Let_def log_simps)

lemma cancelled_unfold:
  "order_id order = Some i \<Longrightarrow> line_items order = Some items \<Longrightarrow>
   toString i \<in> processedOrders s \<Longrightarrow>
     order_cancelled env order s =
       (ok_response,
        log (LogCancellationProcessed i)
          ((restore_items env items (log (LogOrderCancelled (Some i)) s))
           \<lparr>processedOrders := processedOrders s - {toString i}\<rparr>))"
  by (simp add: order_cancelled_def Let_def log_simps restore_tracked)

lemma fulfilled_unfold:
  "order_id order = Some i \<Longrightarrow> line_items order = Some items \<Longrightarrow>
   toString i \<in> processedOrders s \<Longrightarrow>
     order_fulfilled env order s =
       (ok_response,
        log (LogFulfillmentCompleted i)
          ((compensate_items env items (log (LogOrderFulfilled (Some i)) s))
           \<lparr>processedOrders := processedOrders s - {toString i}\<rparr>))"
  by (simp add: order_fulfilled_def Let_def log_simps compensate_tracked)

lemma cancelled_skip:
  "order_id order = Some i \<Longrightarrow> toString i \<notin> processedOrders s \<Longrightarrow>
     order_cancelled env order s =
       (ok_response, log (LogNotProcessed i) (log (LogOrderCancelled (Some i)) s))"
  by (simp add: order_cancelled_def Let_def log_simps)

lemma fulfilled_skip:
  "order_id order = Some i \<Longrightarrow> toString i \<notin> processedOrders s \<Longrightarrow>
     order_fulfilled env order s =
       (ok_response, log (LogNotProcessed i) (log (LogOrderFulfilled (Some i)) s))"
  by (simp add: order_fulfilled_def Let_def log_simps)

text \<open>
  Claim C3. When \<^verbatim>\<open>order-created\<close> has been processed for an order
  (a body with an identifier and line items), the response is 200 and the stringified
  identifier is in \<^verbatim>\<open>processedOrders\<close> immediately afterwards,
  whatever the platform answered to the adjustments of the line items, success or failure.
\<close>

theorem order_created_tracks:
  assumes "order_id order = Some i" and "line_items order = Some items"
  shows "fst (order_created env order s) = \<lparr>status = 200, payload = Plain ''OK''\<rparr> \<and>
         toString i \<in> processedOrders (snd (order_created env order s)) \<and>
         processedOrders (snd (order_created env order s)) = insert (toString i) (processedOrders s)"
  by (simp add: created_unfold [OF assms] log_simps deduct_tracked ok_response_def)

text \<open>
  Order 1001 on the platform that answers nothing: the adjustment fails, no mutating call
  is sent, and the order is in the set.
\<close>

theorem order_created_tracks_witness:
  "''1001'' \<in> processedOrders (snd (order_created platform_down order_1001 init)) \<and>
   status (fst (order_created platform_down order_1001 init)) = 200 \<and>
   failures (console (snd (order_created platform_down order_1001 init))) = 1 \<and>
   mutations (requests (snd (order_created platform_down order_1001 init))) = []"
proof -
  have ident: "order_id order_1001 = Some (IdNumber 1001)"
    and items: "line_items order_1001 = Some [\<lparr>variant_id = 55, quantity = 2\<rparr>]"
    by (simp_all add: order_1001_def)
  have name: "toString (IdNumber 1001) = ''1001''"
    by (simp add: toString_def)
  have effects: "failures (console (snd (order_created platform_down order_1001 init))) = 1 \<and>
     mutations (requests (snd (order_created platform_down order_1001 init))) = []"
    by code_simp
  from order_created_tracks [OF ident items, of platform_down init] name effects
  show ?thesis by simp
qed

text \<open>
  Claim C4. \<^verbatim>\<open>order-cancelled\<close> and
  \<^verbatim>\<open>order- fulfilled\<close> for an identifier that is not in
  \<^verbatim>\<open>processedOrders\<close> send no call to the platform at all (so no
  inventory mutation), leave \<^verbatim>\<open>processedOrders\<close> as it was, and
  answer 200.
\<close>

theorem untracked_terminal_event_skipped:
  assumes "order_id order = Some i" and "toString i \<notin> processedOrders s"
  shows "fst (order_cancelled env order s) = \<lparr>status = 200, payload = Plain ''OK''\<rparr> \<and>
         requests (snd (order_cancelled env order s)) = requests s \<and>
         mutations (requests (snd (order_cancelled env order s))) = mutations (requests s) \<and>
         processedOrders (snd (order_cancelled env order s)) = processedOrders s \<and>
         fst (order_fulfilled env order s) = \<lparr>status = 200, payload = Plain ''OK''\<rparr> \<and>
         requests (snd (order_fulfilled env order s)) = requests s \<and>
         mutations (requests (snd (order_fulfilled env order s))) = mutations (requests s) \<and>
         processedOrders (snd (order_fulfilled env order s)) = processedOrders s"
  by (simp add: cancelled_skip [OF assms] fulfilled_skip [OF assms] log_simps ok_response_def)

text \<open>
  Order 1002 is cancelled and fulfilled when only order 1001 has been created: the one
  mutating call is that of order 1001, and the set still holds 1001 alone.
\<close>

theorem untracked_terminal_event_skipped_witness:
  "fst (order_cancelled platform_up order_1002 (snd (order_created platform_up order_1001 init))) =
     \<lparr>status = 200, payload = Plain ''OK''\<rparr> \<and>
   fst (order_fulfilled platform_up order_1002 (snd (order_created platform_up order_1001 init))) =
     \<lparr>status = 200, payload = Plain ''OK''\<rparr> \<and>
   mutations (requests (snd (order_cancelled platform_up order_1002
       (snd (order_created platform_up order_1001 init))))) = [(7, 1055, - 2)] \<and>
   processedOrders (snd (order_fulfilled platform_up order_1002
       (snd (order_created platform_up order_1001 init)))) = {''1001''}"
proof -
  let ?s = "snd (order_created platform_up order_1001 init)"
  have ident: "order_id order_1002 = Some (IdString ''1002'')"
    by (simp add: order_1002_def)
  have before: "processedOrders ?s = {''1001''} \<and> mutations (requests ?s) = [(7, 1055, - 2)]"
    by code_simp
  then have untracked: "toString (IdString ''1002'') \<notin> processedOrders ?s"
    by (simp add: toString_def)
  from untracked_terminal_event_skipped [OF ident untracked, of platform_up] before
  show ?thesis by simp
qed

lemma created_effects:
  assumes "order_id order = Some i" and "line_items order = Some items"
  shows "lookups (requests (snd (order_created env order s))) = lookups (requests s) @ map variant_id items"
    and "failures (console s) \<le> failures (console (snd (order_created env order s)))"
    and "failures (console (snd (order_created env order s))) +
           length (adjusted (console (snd (order_created env order s)))) =
         failures (console s) + length (adjusted (console s)) + length items"
    and "failures (console (snd (order_created env order s))) = failures (console s) \<Longrightarrow>
           adjusted (console (snd (order_created env order s))) =
             adjusted (console s) @ map deduction items"
proof -
  let ?s0 = "(log (LogProcessingOrder (Some i) (length items))
               (log LogOrderNumber (log (LogNewOrder (Some i)) s)))
             \<lparr>processedOrders := insert (toString i) (processedOrders s)\<rparr>"
  have state: "snd (order_created env order s) =
      log (LogOrderProcessed (Some i)) (deduct_items env items ?s0)"
    by (simp add: created_unfold [OF assms])
  have start: "requests ?s0 = requests s" "failures (console ?s0) = failures (console s)"
    "adjusted (console ?s0) = adjusted (console s)"
    by (simp_all add: log_simps observe)
  show "lookups (requests (snd (order_created env order s))) = lookups (requests s) @ map variant_id items"
    by (simp add: state log_simps deduct_lookups start)
  show "failures (console s) \<le> failures (console (snd (order_created env order s)))"
    using deduct_failures_mono [of ?s0 env items] by (simp add: state log_simps observe start)
  show "failures (console (snd (order_created env order s))) +
           length (adjusted (console (snd (order_created env order s)))) =
         failures (console s) + length (adjusted (console s)) + length items"
    using deduct_accounting [of env items ?s0] by (simp add: state log_simps observe start)
  show "adjusted (console (snd (order_created env order s))) =
             adjusted (console s) @ map deduction items"
    if "failures (console (snd (order_created env order s))) = failures (console s)"
    using that deduct_adjusted [of env items ?s0] by (simp add: state log_simps observe start)
qed

lemma cancelled_effects:
  assumes "order_id order = Some i" and "line_items order = Some items"
    and "toString i \<in> processedOrders s"
  shows "lookups (requests (snd (order_cancelled env order s))) = lookups (requests s) @ map variant_id items"
    and "failures (console s) \<le> failures (console (snd (order_cancelled env order s)))"
    and "failures (console (snd (order_cancelled env order s))) +
           length (adjusted (console (snd (order_cancelled env order s)))) =
         failures (console s) + length (adjusted (console s)) + length items"
    and "failures (console (snd (order_cancelled env order s))) = failures (console s) \<Longrightarrow>
           adjusted (console (snd (order_cancelled env order s))) =
             adjusted (console s) @ map restoration items"
proof -
  let ?s0 = "log (LogOrderCancelled (Some i)) s"
  have state: "snd (order_cancelled env order s) =
      log (LogCancellationProcessed i)
        ((restore_items env items ?s0)\<lparr>processedOrders := processedOrders s - {toString i}\<rparr>)"
    by (simp add: cancelled_unfold [OF assms])
  have start: "requests ?s0 = requests s" "failures (console ?s0) = failures (console s)"
    "adjusted (console ?s0) = adjusted (console s)"
    by (simp_all add: log_simps observe)
  show "lookups (requests (snd (order_cancelled env order s))) = lookups (requests s) @ map variant_id items"
    by (simp add: state log_simps restore_lookups start)
  show "failures (console s) \<le> failures (console (snd (order_cancelled env order s)))"
    using restore_failures_mono [of ?s0 env items] by (simp add: state log_simps observe start)
  show "failures (console (snd (order_cancelled env order s))) +
           length (adjusted (console (snd (order_cancelled env order s)))) =
         failures (console s) + length (adjusted (console s)) + length items"
    using restore_accounting [of env items ?s0] by (simp add: state log_simps observe start)
  show "adjusted (console (snd (order_cancelled env order s))) =
             adjusted (console s) @ map restoration items"
    if "failures (console (snd (order_cancelled env order s))) = failures (console s)"
    using that restore_adjusted [of env items ?s0] by (simp add: state log_simps observe start)
qed

lemma fulfilled_effects:
  assumes "order_id order = Some i" and "line_items order = Some items"
    and "toString i \<in> processedOrders s"
  shows "lookups (requests (snd (order_fulfilled env order s))) = lookups (requests s) @ map variant_id items"
    and "failures (console s) \<le> failures (console (snd (order_fulfilled env order s)))"
    and "failures (console (snd (order_fulfilled env order s))) +
           length (adjusted (console (snd (order_fulfilled env order s)))) =
         failures (console s) + length (adjusted (console s)) + length items"
    and "failures (console (snd (order_fulfilled env order s))) = failures (console s) \<Longrightarrow>
           adjusted (console (snd (order_fulfilled env order s))) =
             adjusted (console s) @ map restoration items"
proof -
  let ?s0 = "log (LogOrderFulfilled (Some i)) s"
  have state: "snd (order_fulfilled env order s) =
      log (LogFulfillmentCompleted i)
        ((compensate_items env items ?s0)\<lparr>processedOrders := processedOrders s - {toString i}\<rparr>)"
    by (simp add: fulfilled_unfold [OF assms])
  have start: "requests ?s0 = requests s" "failures (console ?s0) = failures (console s)"
    "adjusted (console ?s0) = adjusted (console s)"
    by (simp_all add: log_simps observe)
  show "lookups (requests (snd (order_fulfilled env order s))) = lookups (requests s) @ map variant_id items"
    by (simp add: state log_simps compensate_lookups start)
  show "failures (console s) \<le> failures (console (snd (order_fulfilled env order s)))"
    using compensate_failures_mono [of ?s0 env items] by (simp add: state log_simps observe start)
  show "failures (console (snd (order_fulfilled env order s))) +
           length (adjusted (console (snd (order_fulfilled env order s)))) =
         failures (console s) + length (adjusted (console s)) + length items"
    using compensate_accounting [of env items ?s0] by (simp add: state log_simps observe start)
  show "adjusted (console (snd (order_fulfilled env order s))) =
             adjusted (console s) @ map restoration items"
    if "failures (console (snd (order_fulfilled env order s))) = failures (console s)"
    using that compensate_adjusted [of env items ?s0] by (simp add: state log_simps observe start)
qed

lemma created_refines:
  assumes "order_id order = Some i" and "line_items order = Some items"
  shows "requests (snd (order_created env order s)) =
           requests s @ attempted_calls env (requests s) (map deduction items) \<and>
         adjusted (console (snd (order_created env order s))) =
           adjusted (console s) @ attempted_applied env (requests s) (map deduction items) \<and>
         failures (console (snd (order_created env order s))) +
             length (attempted_applied env (requests s) (map deduction items)) =
           failures (console s) + length items"
proof -
  let ?s0 = "(log (LogProcessingOrder (Some i) (length items))
               (log LogOrderNumber (log (LogNewOrder (Some i)) s)))
             \<lparr>processedOrders := insert (toString i) (processedOrders s)\<rparr>"
  have state: "snd (order_created env order s) =
      log (LogOrderProcessed (Some i)) (deduct_items env items ?s0)"
    by (simp add: created_unfold [OF assms])
  have start: "requests ?s0 = requests s" "failures (console ?s0) = failures (console s)"
    "adjusted (console ?s0) = adjusted (console s)"
    by (simp_all add: log_simps observe)
  from deduct_refines [of env items ?s0] show ?thesis
    by (simp add: state log_simps observe start)
qed

lemma cancelled_refines:
  assumes "order_id order = Some i" and "line_items order = Some items"
    and "toString i \<in> processedOrders s"
  shows "requests (snd (order_cancelled env order s)) =
           requests s @ attempted_calls env (requests s) (map restoration items) \<and>
         adjusted (console (snd (order_cancelled env order s))) =
           adjusted (console s) @ attempted_applied env (requests s) (map restoration items) \<and>
         failures (console (snd (order_cancelled env order s))) +
             length (attempted_applied env (requests s) (map restoration items)) =
           failures (console s) + length items"
proof -
  let ?s0 = "log (LogOrderCancelled (Some i)) s"
  have state: "snd (order_cancelled env order s) =
      log (LogCancellationProcessed i)
        ((restore_items env items ?s0)\<lparr>processedOrders := processedOrders s - {toString i}\<rparr>)"
    by (simp add: cancelled_unfold [OF assms])
  have start: "requests ?s0 = requests s" "failures (console ?s0) = failures (console s)"
    "adjusted (console ?s0) = adjusted (console s)"
    by (simp_all add: log_simps observe)
  from restore_refines [of env items ?s0] show ?thesis
    by (simp add: state log_simps observe start)
qed

lemma fulfilled_refines:
  assumes "order_id order = Some i" and "line_items order = Some items"
    and "toString i \<in> processedOrders s"
  shows "requests (snd (order_fulfilled env order s)) =
           requests s @ attempted_calls env (requests s) (map restoration items) \<and>
         adjusted (console (snd (order_fulfilled env order s))) =
           adjusted (console s) @ attempted_applied env (requests s) (map restoration items) \<and>
         failures (console (snd (order_fulfilled env order s))) +
             length (attempted_applied env (requests s) (map restoration items)) =
           failures (console s) + length items"
proof -
  let ?s0 = "log (LogOrderFulfilled (Some i)) s"
  have state: "snd (order_fulfilled env order s) =
      log (LogFulfillmentCompleted i)
        ((compensate_items env items ?s0)\<lparr>processedOrders := processedOrders s - {toString i}\<rparr>)"
    by (simp add: fulfilled_unfold [OF assms])
  have start: "requests ?s0 = requests s" "failures (console ?s0) = failures (console s)"
    "adjusted (console ?s0) = adjusted (console s)"
    by (simp_all add: log_simps observe)
  from compensate_refines [of env items ?s0] show ?thesis
    by (simp add: state log_simps observe start)
qed

text \<open>
  Claim C7. In the three web-hook handlers each line item's adjustment is attempted on its
  own. For every platform, so whichever adjustments fail, the calls sent are exactly those
  of attempting every line item in order, and the response is 200. Wherever a line item
  stands, and whatever became of the line items before it, its calls are those of one
  full adjustment at the history reached (the last part of the statement): a line item
  after a failed one is looked up and, when its look-ups are answered, adjusted. The
  adjustments applied are exactly those the platform answered, and every other line item
  is logged as a failure.
\<close>

theorem line_items_attempted_independently:
  assumes "order_id order = Some i" and "line_items order = Some items"
  shows "fst (order_created env order s) = \<lparr>status = 200, payload = Plain ''OK''\<rparr> \<and>
         requests (snd (order_created env order s)) =
           requests s @ attempted_calls env (requests s) (map deduction items) \<and>
         adjusted (console (snd (order_created env order s))) =
           adjusted (console s) @ attempted_applied env (requests s) (map deduction items) \<and>
         failures (console (snd (order_created env order s))) +
             length (attempted_applied env (requests s) (map deduction items)) =
           failures (console s) + length items \<and>
         lookups (requests (snd (order_created env order s))) =
           lookups (requests s) @ map variant_id items \<and>
         failures (console (snd (order_created env order s))) +
             length (adjusted (console (snd (order_created env order s)))) =
           failures (console s) + length (adjusted (console s)) + length items \<and>
         (toString i \<in> processedOrders s \<longrightarrow>
            fst (order_cancelled env order s) = \<lparr>status = 200, payload = Plain ''OK''\<rparr> \<and>
            requests (snd (order_cancelled env order s)) =
              requests s @ attempted_calls env (requests s) (map restoration items) \<and>
            adjusted (console (snd (order_cancelled env order s))) =
              adjusted (console s) @ attempted_applied env (requests s) (map restoration items) \<and>
            failures (console (snd (order_cancelled env order s))) +
                length (attempted_applied env (requests s) (map restoration items)) =
              failures (console s) + length items \<and>
            lookups (requests (snd (order_cancelled env order s))) =
              lookups (requests s) @ map variant_id items \<and>
            failures (console (snd (order_cancelled env order s))) +
                length (adjusted (console (snd (order_cancelled env order s)))) =
              failures (console s) + length (adjusted (console s)) + length items \<and>
            fst (order_fulfilled env order s) = \<lparr>status = 200, payload = Plain ''OK''\<rparr> \<and>
            requests (snd (order_fulfilled env order s)) =
              requests s @ attempted_calls env (requests s) (map restoration items) \<and>
            adjusted (console (snd (order_fulfilled env order s))) =
              adjusted (console s) @ attempted_applied env (requests s) (map restoration items) \<and>
            failures (console (snd (order_fulfilled env order s))) +
                length (attempted_applied env (requests s) (map restoration items)) =
              failures (console s) + length items \<and>
            lookups (requests (snd (order_fulfilled env order s))) =
              lookups (requests s) @ map variant_id items \<and>
            failures (console (snd (order_fulfilled env order s))) +
                length (adjusted (console (snd (order_fulfilled env order s)))) =
              failures (console s) + length (adjusted (console s)) + length items) \<and>
         (\<forall>history before a after.
            attempted_calls env history (before @ a # after) =
              attempted_calls env history before @
              snd (expected_adjustment env (history @ attempted_calls env history before) a) @
              attempted_calls env
                (history @ attempted_calls env history before @
                   snd (expected_adjustment env (history @ attempted_calls env history before) a))
                after)"
proof -
  have position: "\<forall>history before a after.
      attempted_calls env history (before @ a # after) =
        attempted_calls env history before @
        snd (expected_adjustment env (history @ attempted_calls env history before) a) @
        attempted_calls env
          (history @ attempted_calls env history before @
             snd (expected_adjustment env (history @ attempted_calls env history before) a))
          after"
    by (simp add: attempted_calls_position)
  have created: "fst (order_created env order s) = \<lparr>status = 200, payload = Plain ''OK''\<rparr>"
    by (simp add: created_unfold [OF assms] ok_response_def)
  have terminal: "fst (order_cancelled env order s) = \<lparr>status = 200, payload = Plain ''OK''\<rparr> \<and>
      fst (order_fulfilled env order s) = \<lparr>status = 200, payload = Plain ''OK''\<rparr>"
    if "toString i \<in> processedOrders s"
    by (simp add: cancelled_unfold [OF assms that] fulfilled_unfold [OF assms that] ok_response_def)
  from created terminal created_effects(1,3) [OF assms, of env s]
    cancelled_effects(1,3) [OF assms, of s env] fulfilled_effects(1,3) [OF assms, of s env]
    created_refines [OF assms, of env s] cancelled_refines [OF assms, of s env]
    fulfilled_refines [OF assms, of s env] position
  show ?thesis by blast
qed

text \<open>
  Order 1002 on a platform that fails its first call: the deduction of variant 55 fails at
  its look-up, and the deduction of variant 56 is then sent in full and applied. The
  cancellation, on a platform whose fifth call fails: the restoration of variant 55 fails,
  that of variant 56 is sent and applied.
\<close>

theorem line_items_attempted_independently_witness:
  "fst (order_created (platform_flaky 1) order_1002 init) = \<lparr>status = 200, payload = Plain ''OK''\<rparr> \<and>
   requests (snd (order_created (platform_flaky 1) order_1002 init)) =
     [GetVariant 55, GetVariant 56, GetInventoryLevels 1056, PostAdjust 7 1056 (- 3)] \<and>
   adjusted (console (snd (order_created (platform_flaky 1) order_1002 init))) = [(56, - 3)] \<and>
   failures (console (snd (order_created (platform_flaky 1) order_1002 init))) = 1 \<and>
   fst (order_cancelled (platform_flaky 5) order_1002
         (snd (order_created (platform_flaky 1) order_1002 init))) =
     \<lparr>status = 200, payload = Plain ''OK''\<rparr> \<and>
   requests (snd (order_cancelled (platform_flaky 5) order_1002
         (snd (order_created (platform_flaky 1) order_1002 init)))) =
     [GetVariant 55, GetVariant 56, GetInventoryLevels 1056, PostAdjust 7 1056 (- 3),
      GetVariant 55, GetVariant 56, GetInventoryLevels 1056, PostAdjust 7 1056 3] \<and>
   failures (console (snd (order_cancelled (platform_flaky 5) order_1002
         (snd (order_created (platform_flaky 1) order_1002 init))))) = 2"
proof -
  let ?s = "snd (order_created (platform_flaky 1) order_1002 init)"
  have ident: "order_id order_1002 = Some (IdString ''1002'')"
    and items: "line_items order_1002 =
      Some [\<lparr>variant_id = 55, quantity = 1\<rparr>, \<lparr>variant_id = 56, quantity = 3\<rparr>]"
    by (simp_all add: order_1002_def)
  have start: "requests init = [] \<and> adjusted (console init) = [] \<and> failures (console init) = 0"
    by (simp add: init_def observe)
  have first: "attempted_calls (platform_flaky 1) [] [(55, - 1), (56, - 3)] =
      [GetVariant 55, GetVariant 56, GetInventoryLevels 1056, PostAdjust 7 1056 (- 3)] \<and>
    attempted_applied (platform_flaky 1) [] [(55, - 1), (56, - 3)] = [(56, - 3)]"
    by code_simp
  have tracked: "toString (IdString ''1002'') \<in> processedOrders ?s"
    by code_simp
  note created = line_items_attempted_independently [OF ident items, of "platform_flaky 1" init]
  from created start first have sent: "requests ?s =
      [GetVariant 55, GetVariant 56, GetInventoryLevels 1056, PostAdjust 7 1056 (- 3)]"
    and applied: "adjusted (console ?s) = [(56, - 3)]"
    and failed: "failures (console ?s) = 1"
    and response: "fst (order_created (platform_flaky 1) order_1002 init) =
      \<lparr>status = 200, payload = Plain ''OK''\<rparr>"
    by (simp_all add: deduction_def)
  have second: "attempted_calls (platform_flaky 5)
        [GetVariant 55, GetVariant 56, GetInventoryLevels 1056, PostAdjust 7 1056 (- 3)]
        [(55, 1), (56, 3)] =
      [GetVariant 55, GetVariant 56, GetInventoryLevels 1056, PostAdjust 7 1056 3] \<and>
    attempted_applied (platform_flaky 5)
        [GetVariant 55, GetVariant 56, GetInventoryLevels 1056, PostAdjust 7 1056 (- 3)]
        [(55, 1), (56, 3)] = [(56, 3)]"
    by code_simp
  have direct: "requests (snd (order_cancelled (platform_flaky 5) order_1002 ?s)) =
      [GetVariant 55, GetVariant 56, GetInventoryLevels 1056, PostAdjust 7 1056 (- 3),
       GetVariant 55, GetVariant 56, GetInventoryLevels 1056, PostAdjust 7 1056 3]"
    by code_simp
  note cancelled = line_items_attempted_independently [OF ident items, of "platform_flaky 5" ?s]
  from cancelled tracked have
    "fst (order_cancelled (platform_flaky 5) order_1002 ?s) = \<lparr>status = 200, payload = Plain ''OK''\<rparr>"
    and "requests (snd (order_cancelled (platform_flaky 5) order_1002 ?s)) =
      requests ?s @ attempted_calls (platform_flaky 5) (requests ?s)
        (map restoration [\<lparr>variant_id = 55, quantity = 1\<rparr>, \<lparr>variant_id = 56, quantity = 3\<rparr>])"
    and "failures (console (snd (order_cancelled (platform_flaky 5) order_1002 ?s))) +
        length (attempted_applied (platform_flaky 5) (requests ?s)
          (map restoration [\<lparr>variant_id = 55, quantity = 1\<rparr>, \<lparr>variant_id = 56, quantity = 3\<rparr>])) =
      failures (console ?s) + length [\<lparr>variant_id = 55, quantity = 1\<rparr>, \<lparr>variant_id = 56, quantity = 3\<rparr>]"
    by blast+
  with sent failed second response applied direct show ?thesis
    by (simp add: restoration_def)
qed

lemma created_set_independent:
  assumes "order_id order = Some i" and "line_items order = Some items"
  shows "order_created env order (s\<lparr>processedOrders := P\<rparr>) =
           (fst (order_created env order s),
            (snd (order_created env order s))\<lparr>processedOrders := insert (toString i) P\<rparr>)"
  by (simp add: created_unfold [OF assms] log_def deduct_set_independent)

text \<open>
  Claim C8. \<^verbatim>\<open>order-created\<close> for an identifier that is already in
  \<^verbatim>\<open>processedOrders\<close> does what it does for an order never seen
  (the same response, the same calls, the same console; the set is not consulted). For
  every platform the calls it sends are exactly those of attempting the deduction of every
  line item again, the adjustments applied are those the platform answers, and when the
  platform answers them all the mutating calls sent carry the negated quantity of every
  line item once more. The identifier stays in the set: a second delivery deducts a second
  time.
\<close>

theorem duplicate_order_created_deducts_again:
  assumes "order_id order = Some i" and "line_items order = Some items"
    and "toString i \<in> processedOrders s"
  shows "fst (order_created env order s) = \<lparr>status = 200, payload = Plain ''OK''\<rparr> \<and>
         toString i \<in> processedOrders (snd (order_created env order s)) \<and>
         order_created env order s =
           (fst (order_created env order (s\<lparr>processedOrders := processedOrders s - {toString i}\<rparr>)),
            (snd (order_created env order (s\<lparr>processedOrders := processedOrders s - {toString i}\<rparr>)))
              \<lparr>processedOrders := processedOrders s\<rparr>) \<and>
         requests (snd (order_created env order s)) =
           requests s @ attempted_calls env (requests s) (map deduction items) \<and>
         mutations (requests (snd (order_created env order s))) =
           mutations (requests s) @
             mutations (attempted_calls env (requests s) (map deduction items)) \<and>
         adjusted (console (snd (order_created env order s))) =
           adjusted (console s) @ attempted_applied env (requests s) (map deduction items) \<and>
         (attempted_applied env (requests s) (map deduction items) = map deduction items \<longrightarrow>
            map (\<lambda>m. snd (snd m)) (mutations (requests (snd (order_created env order s)))) =
              map (\<lambda>m. snd (snd m)) (mutations (requests s)) @
                map (\<lambda>lineItem. - quantity lineItem) items) \<and>
         lookups (requests (snd (order_created env order s))) =
           lookups (requests s) @ map variant_id items \<and>
         (failures (console (snd (order_created env order s))) = failures (console s) \<longrightarrow>
            adjusted (console (snd (order_created env order s))) =
              adjusted (console s) @ map deduction items)"
proof -
  let ?unseen = "s\<lparr>processedOrders := processedOrders s - {toString i}\<rparr>"
  have absorb: "insert (toString i) (processedOrders s) = processedOrders s"
    using assms(3) by (rule insert_absorb)
  have "order_created env order s = order_created env order (?unseen\<lparr>processedOrders := processedOrders s\<rparr>)"
    by simp
  also have "\<dots> = (fst (order_created env order ?unseen),
      (snd (order_created env order ?unseen))\<lparr>processedOrders := processedOrders s\<rparr>)"
    by (simp only: created_set_independent [OF assms(1,2)] absorb)
  finally have same: "order_created env order s =
      (fst (order_created env order ?unseen),
       (snd (order_created env order ?unseen))\<lparr>processedOrders := processedOrders s\<rparr>)" .
  have "fst (order_created env order s) = \<lparr>status = 200, payload = Plain ''OK''\<rparr>"
    and "toString i \<in> processedOrders (snd (order_created env order s))"
    by (simp_all add: created_unfold [OF assms(1,2)] ok_response_def log_simps deduct_tracked)
  moreover note sent = created_refines [OF assms(1,2), of env s]
  then have posted: "mutations (requests (snd (order_created env order s))) =
      mutations (requests s) @ mutations (attempted_calls env (requests s) (map deduction items))"
    by (simp add: observe)
  have "map (\<lambda>m. snd (snd m)) (mutations (requests (snd (order_created env order s)))) =
      map (\<lambda>m. snd (snd m)) (mutations (requests s)) @ map (\<lambda>lineItem. - quantity lineItem) items"
    if "attempted_applied env (requests s) (map deduction items) = map deduction items"
    using all_applied_mutations [OF that] posted by (simp add: deduction_def comp_def)
  ultimately show ?thesis
    using same sent posted created_effects(1,4) [OF assms(1,2), of env s] by blast
qed

text \<open>
  Order 1001 delivered twice: the three calls are sent twice, variant 55 is adjusted by -2
  twice, a net of -4.
\<close>

theorem duplicate_order_created_deducts_again_witness:
  "fst (order_created platform_up order_1001 (snd (order_created platform_up order_1001 init))) =
     \<lparr>status = 200, payload = Plain ''OK''\<rparr> \<and>
   ''1001'' \<in> processedOrders (snd (order_created platform_up order_1001
       (snd (order_created platform_up order_1001 init)))) \<and>
   requests (snd (order_created platform_up order_1001
       (snd (order_created platform_up order_1001 init)))) =
     [GetVariant 55, GetInventoryLevels 1055, PostAdjust 7 1055 (- 2),
      GetVariant 55, GetInventoryLevels 1055, PostAdjust 7 1055 (- 2)] \<and>
   mutations (requests (snd (order_created platform_up order_1001
       (snd (order_created platform_up order_1001 init))))) =
     [(7, 1055, - 2), (7, 1055, - 2)] \<and>
   adjusted (console (snd (order_created platform_up order_1001
       (snd (order_created platform_up order_1001 init))))) = [(55, - 2), (55, - 2)] \<and>
   net_adjusted 55 (console (snd (order_created platform_up order_1001
       (snd (order_created platform_up order_1001 init))))) = - 4"
proof -
  let ?s = "snd (order_created platform_up order_1001 init)"
  have ident: "order_id order_1001 = Some (IdNumber 1001)"
    and items: "line_items order_1001 = Some [\<lparr>variant_id = 55, quantity = 2\<rparr>]"
    by (simp_all add: order_1001_def)
  have name: "toString (IdNumber 1001) = ''1001''"
    by (simp add: toString_def)
  have first: "''1001'' \<in> processedOrders ?s \<and> adjusted (console ?s) = [(55, - 2)] \<and>
      requests ?s = [GetVariant 55, GetInventoryLevels 1055, PostAdjust 7 1055 (- 2)]"
    by code_simp
  have again_calls: "attempted_calls platform_up
        [GetVariant 55, GetInventoryLevels 1055, PostAdjust 7 1055 (- 2)] [(55, - 2)] =
      [GetVariant 55, GetInventoryLevels 1055, PostAdjust 7 1055 (- 2)] \<and>
    attempted_applied platform_up
        [GetVariant 55, GetInventoryLevels 1055, PostAdjust 7 1055 (- 2)] [(55, - 2)] = [(55, - 2)]"
    by code_simp
  from first name have tracked: "toString (IdNumber 1001) \<in> processedOrders ?s"
    by simp
  note again = duplicate_order_created_deducts_again [OF ident items tracked, of platform_up]
  from again have response:
    "fst (order_created platform_up order_1001 ?s) = \<lparr>status = 200, payload = Plain ''OK''\<rparr>"
    and still: "toString (IdNumber 1001) \<in> processedOrders (snd (order_created platform_up order_1001 ?s))"
    and sent: "requests (snd (order_created platform_up order_1001 ?s)) =
      requests ?s @ attempted_calls platform_up (requests ?s)
        (map deduction [\<lparr>variant_id = 55, quantity = 2\<rparr>])"
    and applied: "adjusted (console (snd (order_created platform_up order_1001 ?s))) =
      adjusted (console ?s) @ attempted_applied platform_up (requests ?s)
        (map deduction [\<lparr>variant_id = 55, quantity = 2\<rparr>])"
    by blast+
  from sent first again_calls have calls: "requests (snd (order_created platform_up order_1001 ?s)) =
      [GetVariant 55, GetInventoryLevels 1055, PostAdjust 7 1055 (- 2),
       GetVariant 55, GetInventoryLevels 1055, PostAdjust 7 1055 (- 2)]"
    by (simp add: deduction_def)
  from applied first again_calls
  have twice: "adjusted (console (snd (order_created platform_up order_1001 ?s))) =
      [(55, - 2), (55, - 2)]"
    by (simp add: deduction_def)
  have direct: "requests (snd (order_created platform_up order_1001 ?s)) =
      [GetVariant 55, GetInventoryLevels 1055, PostAdjust 7 1055 (- 2),
       GetVariant 55, GetInventoryLevels 1055, PostAdjust 7 1055 (- 2)]"
    by code_simp
  from calls have "mutations (requests (snd (order_created platform_up order_1001 ?s))) =
      [(7, 1055, - 2), (7, 1055, - 2)]"
    by (simp add: observe)
  with response still name calls twice direct show ?thesis
    by (simp add: net_adjusted_def)
qed

section \<open>The life cycle of an order\<close>



lemma terminal_untracks:
  assumes "order_id order = Some i" and "line_items order = Some items"
  shows "processedOrders (snd (order_cancelled env order s)) = processedOrders s - {toString i}"
    and "processedOrders (snd (order_fulfilled env order s)) = processedOrders s - {toString i}"
proof -
  show "processedOrders (snd (order_cancelled env order s)) = processedOrders s - {toString i}"
  proof (cases "toString i \<in> processedOrders s")
    case True
    then show ?thesis by (simp add: cancelled_unfold [OF assms] log_simps)
  next
    case False
    then show ?thesis by (simp add: cancelled_skip [OF assms(1)] log_simps)
  qed
  show "processedOrders (snd (order_fulfilled env order s)) = processedOrders s - {toString i}"
  proof (cases "toString i \<in> processedOrders s")
    case True
    then show ?thesis by (simp add: fulfilled_unfold [OF assms] log_simps)
  next
    case False
    then show ?thesis by (simp add: fulfilled_skip [OF assms(1)] log_simps)
  qed
qed






section \<open>Runs of the server\<close>

lemma deliver_tracked:
  assumes "order_id order = Some i" and "line_items order = Some items"
  shows "processedOrders (deliver env (hook, order) s) =
           (if hook = OrderCreated then insert (toString i) (processedOrders s)
            else processedOrders s - {toString i})"
proof (cases hook)
  case OrderCreated
  then show ?thesis
    by (simp add: created_unfold [OF assms] log_simps deduct_tracked)
next
  case OrderCancelled
  then show ?thesis
    by (simp add: terminal_untracks [OF assms])
next
  case OrderFulfilled
  then show ?thesis
    by (simp add: terminal_untracks [OF assms])
qed

text \<open>
  Claim C1, as amended. After any sequence of verified deliveries of well-formed orders,
  an identifier is in \<^verbatim>\<open>processedOrders\<close> if and only if the last
  delivery that named it was an \<^verbatim>\<open>order-created\<close> (or, when none
  named it, it was in the set before): the deduction of the order has been attempted,
  whether or not any adjustment went through, and no cancellation or fulfilment of it has
  been processed since. Each of the three handlers preserves this.
\<close>

theorem tracked_iff_awaiting:
  assumes "\<forall>d \<in> set deliveries. well_formed (snd d)"
  shows "(k \<in> processedOrders (run env deliveries s)) = awaiting (k \<in> processedOrders s) k deliveries"
  using assms
proof (induction deliveries arbitrary: s)
  case Nil
  show ?case by (simp add: run_def)
next
  case (Cons d rest)
  obtain hook order where d: "d = (hook, order)"
    by (cases d)
  with Cons.prems obtain i items where wf: "order_id order = Some i" "line_items order = Some items"
    by (auto simp: well_formed_def)
  from Cons.prems have "\<forall>d \<in> set rest. well_formed (snd d)"
    by simp
  from Cons.IH [OF this, of "deliver env d s"]
  have "(k \<in> processedOrders (run env (d # rest) s)) =
      awaiting (k \<in> processedOrders (deliver env d s)) k rest"
    by (simp add: run_def)
  also have "(k \<in> processedOrders (deliver env d s)) =
      (if map_option toString (order_id order) = Some k then hook = OrderCreated
       else k \<in> processedOrders s)"
    unfolding d deliver_tracked [OF wf] using wf by auto
  finally show ?case
    by (simp add: d)
qed

text \<open>
  Orders 1002 and 1001 are created and 1002 is fulfilled, on the platform that answers
  nothing: 1001 is in the set and 1002 is not.
\<close>

theorem tracked_iff_awaiting_witness:
  "''1001'' \<in> processedOrders
     (run platform_down [(OrderCreated, order_1002), (OrderCreated, order_1001),
        (OrderFulfilled, order_1002)] init) \<and>
   ''1002'' \<notin> processedOrders
     (run platform_down [(OrderCreated, order_1002), (OrderCreated, order_1001),
        (OrderFulfilled, order_1002)] init)"
proof -
  let ?deliveries = "[(OrderCreated, order_1002), (OrderCreated, order_1001),
        (OrderFulfilled, order_1002)]"
  have wf: "\<forall>d \<in> set ?deliveries. well_formed (snd d)"
    by (simp add: well_formed_def order_1001_def order_1002_def)
  have "awaiting (''1001'' \<in> processedOrders init) ''1001'' ?deliveries"
    and "\<not> awaiting (''1002'' \<in> processedOrders init) ''1002'' ?deliveries"
    by (simp_all add: init_def order_1001_def order_1002_def toString_def)
  with tracked_iff_awaiting [OF wf, of "''1001''" platform_down init]
    tracked_iff_awaiting [OF wf, of "''1002''" platform_down init]
  show ?thesis by simp
qed

text \<open>
  The claim as stated fails. On the platform that answers nothing, order 1001 is in the
  set after \<^verbatim>\<open>order-created\<close> although no adjustment call was sent
  and no deduction was applied.
\<close>

theorem tracked_without_any_deduction:
  "toString (IdNumber 1001) \<in> processedOrders (snd (order_created platform_down order_1001 init)) \<and>
   fst (order_created platform_down order_1001 init) = \<lparr>status = 200, payload = Plain ''OK''\<rparr> \<and>
   mutations (requests (snd (order_created platform_down order_1001 init))) = [] \<and>
   adjusted (console (snd (order_created platform_down order_1001 init))) = []"
  by code_simp

section \<open>The test endpoint: responses\<close>

lemma test_items_effects:
  "test_items env items s = (r, s') \<Longrightarrow>
     processedOrders s' = processedOrders s \<and>
     (case r of
        Inr u \<Rightarrow> adjusted (console s') = adjusted (console s) @ map deduction items
      | Inl e \<Rightarrow> \<exists>n < length items.
          adjusted (console s') = adjusted (console s) @ map deduction (take n items))"
proof (induction items arbitrary: s)
  case Nil
  then show ?case by auto
next
  case (Cons lineItem rest)
  obtain q t where step:
    "updateInventoryForVariant env (variant_id lineItem) (- quantity lineItem) s = (q, t)"
    by (cases "updateInventoryForVariant env (variant_id lineItem) (- quantity lineItem) s")
  note one = adjust_tracked [OF step] adjust_adjusted [OF step]
  show ?case
  proof (cases q)
    case (Inl e)
    with step Cons.prems have "r = Inl e" "s' = t"
      by simp_all
    with one Inl show ?thesis
      by (auto intro: exI [of _ 0])
  next
    case (Inr u)
    let ?t = "log (LogTestUpdated (variant_id lineItem) (quantity lineItem)) t"
    from step Inr Cons.prems have rest: "test_items env rest ?t = (r, s')"
      by simp
    have start: "processedOrders ?t = processedOrders s"
      "adjusted (console ?t) = adjusted (console s) @ [deduction lineItem]"
      using one Inr by (simp_all add: log_simps observe deduction_def)
    from Cons.IH [OF rest] start show ?thesis
    proof (cases r)
      case (Inl e)
      with Cons.IH [OF rest] start obtain n where "n < length rest"
        "adjusted (console s') = adjusted (console s) @ deduction lineItem # map deduction (take n rest)"
        by auto
      then have "Suc n < length (lineItem # rest) \<and>
          adjusted (console s') = adjusted (console s) @ map deduction (take (Suc n) (lineItem # rest))"
        by simp
      with Cons.IH [OF rest] start Inl show ?thesis
        by (auto simp del: take_Suc_Cons)
    next
      case (Inr v)
      with Cons.IH [OF rest] start show ?thesis
        by simp
    qed
  qed
qed

lemma test_items_refines:
  "test_items env items s = (r, s') \<Longrightarrow>
     r = (case first_failure env (requests s) (map deduction items) of
            None \<Rightarrow> Inr () | Some e \<Rightarrow> Inl e) \<and>
     requests s' = requests s @ calls_until_failure env (requests s) (map deduction items) \<and>
     adjusted (console s') =
       adjusted (console s) @ applied_until_failure env (requests s) (map deduction items)"
proof (induction items arbitrary: s)
  case Nil
  then show ?case by auto
next
  case (Cons lineItem rest)
  obtain q t where step:
    "updateInventoryForVariant env (variant_id lineItem) (- quantity lineItem) s = (q, t)"
    by (cases "updateInventoryForVariant env (variant_id lineItem) (- quantity lineItem) s")
  obtain calls where expected:
    "expected_adjustment env (requests s) (deduction lineItem) = (q, calls)"
    and sent: "requests t = requests s @ calls"
    using adjust_refines [OF step] by (cases "expected_adjustment env (requests s) (deduction lineItem)")
      (simp add: deduction_def)
  note one = adjust_adjusted [OF step]
  show ?case
  proof (cases q)
    case (Inl e)
    with step Cons.prems have "r = Inl e" "s' = t"
      by simp_all
    with expected sent one Inl show ?thesis
      by simp
  next
    case (Inr u)
    let ?t = "log (LogTestUpdated (variant_id lineItem) (quantity lineItem)) t"
    from step Inr Cons.prems have rest: "test_items env rest ?t = (r, s')"
      by simp
    from Cons.IH [OF rest] expected sent one Inr show ?thesis
      by (simp add: log_simps observe deduction_def)
  qed
qed

lemma no_failure_all_applied:
  "first_failure env history as = None \<Longrightarrow> applied_until_failure env history as = as"
proof (induction as arbitrary: history)
  case Nil
  show ?case by simp
next
  case (Cons a rest)
  obtain r calls where "expected_adjustment env history a = (r, calls)"
    by (cases "expected_adjustment env history a")
  with Cons show ?case
    by (cases r) simp_all
qed

text \<open>
  Claim C9, as amended. \<^verbatim>\<open>POST /test/process-order\<close> answers 400,
  and does nothing else, when \<^verbatim>\<open>orderId\<close> is missing or falsy (the
  number 0, the empty string) or \<^verbatim>\<open>lineItems\<close> is missing.
  Otherwise it deducts line item by line item and never changes
  \<^verbatim>\<open>processedOrders\<close>. For every platform the calls sent are
  exactly those of the deductions up to and with the first one that fails, the adjustments
  applied are those before it, and the response is 200 when no deduction fails (then every
  deduction has been applied) and 500 with the error of the first deduction that failed.
\<close>

theorem test_process_order_responses:
  "(falsy (orderId submitted) \<or> lineItems submitted = None \<longrightarrow>
      test_process_order env submitted s = (\<lparr>status = 400, payload = RequiredJson\<rparr>, s)) \<and>
   (orderId submitted = Some i \<and> \<not> falsy (Some i) \<and> lineItems submitted = Some items \<longrightarrow>
      processedOrders (snd (test_process_order env submitted s)) = processedOrders s \<and>
      fst (test_process_order env submitted s) =
        (case first_failure env (requests s) (map deduction items) of
           None \<Rightarrow> \<lparr>status = 200, payload = SuccessJson i\<rparr>
         | Some e \<Rightarrow> \<lparr>status = 500, payload = ErrorJson e\<rparr>) \<and>
      requests (snd (test_process_order env submitted s)) =
        requests s @ calls_until_failure env (requests s) (map deduction items) \<and>
      adjusted (console (snd (test_process_order env submitted s))) =
        adjusted (console s) @ applied_until_failure env (requests s) (map deduction items) \<and>
      (first_failure env (requests s) (map deduction items) = None \<longrightarrow>
         adjusted (console (snd (test_process_order env submitted s))) =
           adjusted (console s) @ map deduction items) \<and>
      (fst (test_process_order env submitted s) = \<lparr>status = 200, payload = SuccessJson i\<rparr> \<and>
       adjusted (console (snd (test_process_order env submitted s))) =
         adjusted (console s) @ map deduction items
       \<or>
       (\<exists>e n. n < length items \<and>
          fst (test_process_order env submitted s) = \<lparr>status = 500, payload = ErrorJson e\<rparr> \<and>
          adjusted (console (snd (test_process_order env submitted s))) =
            adjusted (console s) @ map deduction (take n items))))"
proof (intro conjI impI)
  assume "falsy (orderId submitted) \<or> lineItems submitted = None"
  then show "test_process_order env submitted s = (\<lparr>status = 400, payload = RequiredJson\<rparr>, s)"
    by (auto simp: test_process_order_def falsy_def split: option.splits)
next
  assume given: "orderId submitted = Some i \<and> \<not> falsy (Some i) \<and> lineItems submitted = Some items"
  obtain r s' where loop: "test_items env items (log (LogTesting i) s) = (r, s')"
    by (cases "test_items env items (log (LogTesting i) s)")
  note effects = test_items_effects [OF loop]
  from test_items_refines [OF loop]
  have outcome: "r = (case first_failure env (requests (log (LogTesting i) s)) (map deduction items) of
        None \<Rightarrow> Inr () | Some e \<Rightarrow> Inl e)"
    and calls: "requests s' = requests (log (LogTesting i) s) @
        calls_until_failure env (requests (log (LogTesting i) s)) (map deduction items)"
    and deducted: "adjusted (console s') = adjusted (console (log (LogTesting i) s)) @
        applied_until_failure env (requests (log (LogTesting i) s)) (map deduction items)"
    by simp_all
  have start: "processedOrders (log (LogTesting i) s) = processedOrders s"
    "adjusted (console (log (LogTesting i) s)) = adjusted (console s)"
    "requests (log (LogTesting i) s) = requests s"
    by (simp_all add: log_simps observe)
  show tracked: "processedOrders (snd (test_process_order env submitted s)) = processedOrders s"
    using given loop effects start
    by (cases r) (simp_all add: test_process_order_def log_simps)
  show response: "fst (test_process_order env submitted s) =
        (case first_failure env (requests s) (map deduction items) of
           None \<Rightarrow> \<lparr>status = 200, payload = SuccessJson i\<rparr>
         | Some e \<Rightarrow> \<lparr>status = 500, payload = ErrorJson e\<rparr>)"
    using given loop outcome start
    by (cases "first_failure env (requests s) (map deduction items)")
      (simp_all add: test_process_order_def)
  show sent: "requests (snd (test_process_order env submitted s)) =
        requests s @ calls_until_failure env (requests s) (map deduction items)"
    using given loop calls start
    by (cases r) (simp_all add: test_process_order_def log_simps)
  show applied: "adjusted (console (snd (test_process_order env submitted s))) =
        adjusted (console s) @ applied_until_failure env (requests s) (map deduction items)"
    using given loop deducted start
    by (cases r) (simp_all add: test_process_order_def log_simps observe)
  show "adjusted (console (snd (test_process_order env submitted s))) =
           adjusted (console s) @ map deduction items"
    if "first_failure env (requests s) (map deduction items) = None"
    using applied no_failure_all_applied [OF that] by simp
  show "fst (test_process_order env submitted s) = \<lparr>status = 200, payload = SuccessJson i\<rparr> \<and>
       adjusted (console (snd (test_process_order env submitted s))) =
         adjusted (console s) @ map deduction items
       \<or>
       (\<exists>e n. n < length items \<and>
          fst (test_process_order env submitted s) = \<lparr>status = 500, payload = ErrorJson e\<rparr> \<and>
          adjusted (console (snd (test_process_order env submitted s))) =
            adjusted (console s) @ map deduction (take n items))"
  proof (cases r)
    case (Inr u)
    with given loop effects start show ?thesis
      by (simp add: test_process_order_def)
  next
    case (Inl e)
    with effects start obtain n where "n < length items"
      "adjusted (console s') = adjusted (console s) @ map deduction (take n items)"
      by auto
    with given loop Inl show ?thesis
      by (auto simp: test_process_order_def log_simps observe)
  qed
qed

text \<open>
  A body without \<^verbatim>\<open>orderId\<close>, and test order T1 on the platform
  where every call succeeds and on the one that refuses the adjustment: there the first
  deduction is sent and refused, the second line item is never looked up, and the answer
  is 500 with the platform's error.
\<close>

theorem test_process_order_responses_witness:
  "test_process_order platform_up
     \<lparr>orderId = None, lineItems = Some [\<lparr>variant_id = 55, quantity = 2\<rparr>]\<rparr> init =
     (\<lparr>status = 400, payload = RequiredJson\<rparr>, init) \<and>
   fst (test_process_order platform_up
     \<lparr>orderId = Some (IdString ''T1''),
      lineItems = Some [\<lparr>variant_id = 55, quantity = 2\<rparr>, \<lparr>variant_id = 56, quantity = 1\<rparr>]\<rparr> init) =
     \<lparr>status = 200, payload = SuccessJson (IdString ''T1'')\<rparr> \<and>
   requests (snd (test_process_order platform_up
     \<lparr>orderId = Some (IdString ''T1''),
      lineItems = Some [\<lparr>variant_id = 55, quantity = 2\<rparr>, \<lparr>variant_id = 56, quantity = 1\<rparr>]\<rparr> init)) =
     [GetVariant 55, GetInventoryLevels 1055, PostAdjust 7 1055 (- 2),
      GetVariant 56, GetInventoryLevels 1056, PostAdjust 7 1056 (- 1)] \<and>
   adjusted (console (snd (test_process_order platform_up
     \<lparr>orderId = Some (IdString ''T1''),
      lineItems = Some [\<lparr>variant_id = 55, quantity = 2\<rparr>, \<lparr>variant_id = 56, quantity = 1\<rparr>]\<rparr> init))) =
     [(55, - 2), (56, - 1)] \<and>
   processedOrders (snd (test_process_order platform_up
     \<lparr>orderId = Some (IdString ''T1''),
      lineItems = Some [\<lparr>variant_id = 55, quantity = 2\<rparr>, \<lparr>variant_id = 56, quantity = 1\<rparr>]\<rparr> init)) = {} \<and>
   fst (test_process_order platform_readonly
     \<lparr>orderId = Some (IdString ''T1''),
      lineItems = Some [\<lparr>variant_id = 55, quantity = 2\<rparr>, \<lparr>variant_id = 56, quantity = 1\<rparr>]\<rparr> init) =
     \<lparr>status = 500,
      payload = ErrorJson (InventoryUpdateFailed (ShopifyAPIError 422 ''refused''))\<rparr> \<and>
   requests (snd (test_process_order platform_readonly
     \<lparr>orderId = Some (IdString ''T1''),
      lineItems = Some [\<lparr>variant_id = 55, quantity = 2\<rparr>, \<lparr>variant_id = 56, quantity = 1\<rparr>]\<rparr> init)) =
     [GetVariant 55, GetInventoryLevels 1055, PostAdjust 7 1055 (- 2)] \<and>
   adjusted (console (snd (test_process_order platform_readonly
     \<lparr>orderId = Some (IdString ''T1''),
      lineItems = Some [\<lparr>variant_id = 55, quantity = 2\<rparr>, \<lparr>variant_id = 56, quantity = 1\<rparr>]\<rparr> init))) = [] \<and>
   processedOrders (snd (test_process_order platform_readonly
     \<lparr>orderId = Some (IdString ''T1''),
      lineItems = Some [\<lparr>variant_id = 55, quantity = 2\<rparr>, \<lparr>variant_id = 56, quantity = 1\<rparr>]\<rparr> init)) = {}"
proof -
  let ?items = "[\<lparr>variant_id = 55, quantity = 2\<rparr>, \<lparr>variant_id = 56, quantity = 1\<rparr>]"
  let ?missing = "\<lparr>orderId = None, lineItems = Some [\<lparr>variant_id = 55, quantity = 2\<rparr>]\<rparr>"
  let ?given = "\<lparr>orderId = Some (IdString ''T1''), lineItems = Some ?items\<rparr>"
  have absent: "falsy (orderId ?missing) \<or> lineItems ?missing = None"
    by (simp add: falsy_def)
  have present: "orderId ?given = Some (IdString ''T1'') \<and> \<not> falsy (Some (IdString ''T1'')) \<and>
      lineItems ?given = Some ?items"
    by (simp add: falsy_def)
  have start: "processedOrders init = {} \<and> requests init = [] \<and> adjusted (console init) = []"
    by (simp add: init_def observe)
  have up: "first_failure platform_up [] [(55, - 2), (56, - 1)] = None \<and>
      calls_until_failure platform_up [] [(55, - 2), (56, - 1)] =
        [GetVariant 55, GetInventoryLevels 1055, PostAdjust 7 1055 (- 2),
         GetVariant 56, GetInventoryLevels 1056, PostAdjust 7 1056 (- 1)] \<and>
      applied_until_failure platform_up [] [(55, - 2), (56, - 1)] = [(55, - 2), (56, - 1)]"
    by code_simp
  have readonly: "first_failure platform_readonly [] [(55, - 2), (56, - 1)] =
        Some (InventoryUpdateFailed (ShopifyAPIError 422 ''refused'')) \<and>
      calls_until_failure platform_readonly [] [(55, - 2), (56, - 1)] =
        [GetVariant 55, GetInventoryLevels 1055, PostAdjust 7 1055 (- 2)] \<and>
      applied_until_failure platform_readonly [] [(55, - 2), (56, - 1)] = []"
    by code_simp
  note responses = test_process_order_responses
  from responses [where submitted = ?missing and env = platform_up and s = init] absent
  have missing: "test_process_order platform_up ?missing init =
      (\<lparr>status = 400, payload = RequiredJson\<rparr>, init)"
    by blast
  from responses [where submitted = ?given and i = "IdString ''T1''" and items = ?items
      and env = platform_up and s = init] present
  have "processedOrders (snd (test_process_order platform_up ?given init)) = processedOrders init"
    and "fst (test_process_order platform_up ?given init) =
      (case first_failure platform_up (requests init) (map deduction ?items) of
         None \<Rightarrow> \<lparr>status = 200, payload = SuccessJson (IdString ''T1'')\<rparr>
       | Some e \<Rightarrow> \<lparr>status = 500, payload = ErrorJson e\<rparr>)"
    and "requests (snd (test_process_order platform_up ?given init)) =
      requests init @ calls_until_failure platform_up (requests init) (map deduction ?items)"
    and "adjusted (console (snd (test_process_order platform_up ?given init))) =
      adjusted (console init) @ applied_until_failure platform_up (requests init) (map deduction ?items)"
    by blast+
  with start up have succeeded:
    "processedOrders (snd (test_process_order platform_up ?given init)) = {}"
    "fst (test_process_order platform_up ?given init) =
      \<lparr>status = 200, payload = SuccessJson (IdString ''T1'')\<rparr>"
    "requests (snd (test_process_order platform_up ?given init)) =
      [GetVariant 55, GetInventoryLevels 1055, PostAdjust 7 1055 (- 2),
       GetVariant 56, GetInventoryLevels 1056, PostAdjust 7 1056 (- 1)]"
    "adjusted (console (snd (test_process_order platform_up ?given init))) = [(55, - 2), (56, - 1)]"
    by (simp_all add: deduction_def)
  from responses [where submitted = ?given and i = "IdString ''T1''" and items = ?items
      and env = platform_readonly and s = init] present
  have "processedOrders (snd (test_process_order platform_readonly ?given init)) = processedOrders init"
    and "fst (test_process_order platform_readonly ?given init) =
      (case first_failure platform_readonly (requests init) (map deduction ?items) of
         None \<Rightarrow> \<lparr>status = 200, payload = SuccessJson (IdString ''T1'')\<rparr>
       | Some e \<Rightarrow> \<lparr>status = 500, payload = ErrorJson e\<rparr>)"
    and "requests (snd (test_process_order platform_readonly ?given init)) =
      requests init @ calls_until_failure platform_readonly (requests init) (map deduction ?items)"
    and "adjusted (console (snd (test_process_order platform_readonly ?given init))) =
      adjusted (console init) @
        applied_until_failure platform_readonly (requests init) (map deduction ?items)"
    by blast+
  with start readonly have refused:
    "processedOrders (snd (test_process_order platform_readonly ?given init)) = {}"
    "fst (test_process_order platform_readonly ?given init) =
      \<lparr>status = 500, payload = ErrorJson (InventoryUpdateFailed (ShopifyAPIError 422 ''refused''))\<rparr>"
    "requests (snd (test_process_order platform_readonly ?given init)) =
      [GetVariant 55, GetInventoryLevels 1055, PostAdjust 7 1055 (- 2)]"
    "adjusted (console (snd (test_process_order platform_readonly ?given init))) = []"
    by (simp_all add: deduction_def)
  have direct: "requests (snd (test_process_order platform_readonly ?given init)) =
      [GetVariant 55, GetInventoryLevels 1055, PostAdjust 7 1055 (- 2)] \<and>
    fst (test_process_order platform_readonly ?given init) =
      \<lparr>status = 500, payload = ErrorJson (InventoryUpdateFailed (ShopifyAPIError 422 ''refused''))\<rparr>"
    by code_simp
  from missing succeeded refused direct show ?thesis
    by simp
qed

text \<open>
  The claim as stated fails. A body with \<^verbatim>\<open>orderId\<close> 0 and with
  line items has both properties, and is answered 400 with nothing adjusted.
\<close>

theorem test_order_id_zero_rejected:
  "orderId \<lparr>orderId = Some (IdNumber 0), lineItems = Some [\<lparr>variant_id = 55, quantity = 2\<rparr>]\<rparr> =
     Some (IdNumber 0) \<and>
   lineItems \<lparr>orderId = Some (IdNumber 0), lineItems = Some [\<lparr>variant_id = 55, quantity = 2\<rparr>]\<rparr> =
     Some [\<lparr>variant_id = 55, quantity = 2\<rparr>] \<and>
   test_process_order platform_up
     \<lparr>orderId = Some (IdNumber 0), lineItems = Some [\<lparr>variant_id = 55, quantity = 2\<rparr>]\<rparr> init =
     (\<lparr>status = 400, payload = RequiredJson\<rparr>, init)"
  by (simp add: test_process_order_def falsy_def)

section \<open>Signature verification: what is hashed\<close>

lemma verifyWebhook_verdict:
  "fst (verifyWebhook hmac stringify secret req s) = None \<longleftrightarrow>
     hmac_header req = Some (hmac secret (stringify (body req)))"
  by (auto simp: verifyWebhook_def Let_def)

lemma rejected_before_handler:
  "hmac_header req \<noteq> Some (hmac secret (stringify (body req))) \<Longrightarrow>
     post_webhook hmac stringify secret env hook req s =
       (\<lparr>status = 401, payload = Plain ''Unauthorized''\<rparr>, log LogUnauthorized s)"
  by (auto simp: post_webhook_def verifyWebhook_def Let_def)

lemma verified_reaches_handler:
  "hmac_header req = Some (hmac secret (stringify (body req))) \<Longrightarrow>
     post_webhook hmac stringify secret env hook req s =
       handler hook env (body req) (log LogVerified s)"
  by (auto simp: post_webhook_def verifyWebhook_def Let_def)

text \<open>
  Claim C5, at the failing input. A request whose header is the HMAC of the bytes received
  is answered 401 whenever the HMAC of \<^verbatim>\<open>JSON.stringify(req.body)\<close>
  differs from it: \<^verbatim>\<open>verifyWebhook\<close> hashes the parsed body
  serialised again, never the bytes received, and its verdict is the same for every
  received byte string.
\<close>

theorem signed_bytes_rejected:
  "verifyWebhook hmac stringify secret (req\<lparr>raw_body := bytes\<rparr>) s =
     verifyWebhook hmac stringify secret req s \<and>
   (hmac_header req = Some (hmac secret (raw_body req)) \<and>
    hmac secret (stringify (body req)) \<noteq> hmac secret (raw_body req) \<longrightarrow>
      post_webhook hmac stringify secret env hook req s =
        (\<lparr>status = 401, payload = Plain ''Unauthorized''\<rparr>, log LogUnauthorized s))"
proof (intro conjI impI)
  show "verifyWebhook hmac stringify secret (req\<lparr>raw_body := bytes\<rparr>) s =
     verifyWebhook hmac stringify secret req s"
    by (simp add: verifyWebhook_def)
next
  assume "hmac_header req = Some (hmac secret (raw_body req)) \<and>
    hmac secret (stringify (body req)) \<noteq> hmac secret (raw_body req)"
  then have "hmac_header req \<noteq> Some (hmac secret (stringify (body req)))"
    by auto
  then show "post_webhook hmac stringify secret env hook req s =
        (\<lparr>status = 401, payload = Plain ''Unauthorized''\<rparr>, log LogUnauthorized s)"
    by (rule rejected_before_handler)
qed

text \<open>
  The delivery whose bytes have blanks, signed over these bytes: the body serialised again
  has none, and the delivery is answered 401 before any handler runs.
\<close>

theorem signed_bytes_rejected_witness:
  \<open>hmac_header spaced_delivery = Some (keyed_copy ''shhh'' (raw_body spaced_delivery)) \<and>
   compact_json (body spaced_delivery) =
     ''{"id":1001,"line_items":[{"variant_id":55,"quantity":2}]}'' \<and>
   post_webhook keyed_copy compact_json ''shhh'' platform_up OrderCreated spaced_delivery init =
     (\<lparr>status = 401, payload = Plain ''Unauthorized''\<rparr>,
      \<lparr>processedOrders = {}, requests = [], console = [LogUnauthorized]\<rparr>)\<close>
proof -
  have signed: "hmac_header spaced_delivery = Some (keyed_copy ''shhh'' (raw_body spaced_delivery))"
    by (simp add: spaced_delivery_def)
  have compact: \<open>compact_json (body spaced_delivery) =
      ''{"id":1001,"line_items":[{"variant_id":55,"quantity":2}]}''\<close>
    by (simp add: spaced_delivery_def order_1001_def compact_json_def json_id_property_def
        json_items_property_def json_line_item_def json_number_def toString_def)
  have differ: "keyed_copy ''shhh'' (compact_json (body spaced_delivery)) \<noteq>
      keyed_copy ''shhh'' (raw_body spaced_delivery)"
    unfolding compact by (simp add: keyed_copy_def spaced_delivery_def)
  from signed_bytes_rejected
      [where hmac = keyed_copy and stringify = compact_json and secret = "''shhh''"
         and req = spaced_delivery and s = init and env = platform_up and hook = OrderCreated]
    signed differ
  have "post_webhook keyed_copy compact_json ''shhh'' platform_up OrderCreated spaced_delivery init =
      (\<lparr>status = 401, payload = Plain ''Unauthorized''\<rparr>, log LogUnauthorized init)"
    by blast
  with signed compact show ?thesis
    by (simp add: log_def init_def)
qed

end
